theory Spec2Isabelle
  imports Complex_Main "HOL-Library.Multiset"
begin

section \<open>Detection decoding and suppression of \<^verbatim>\<open>DroneDetection/public/app.js\<close>\<close>

text \<open>
  The numbers of the script are JavaScript doubles. They are modelled as \<^typ>\<open>real\<close>:
  finite values, and outside \<^verbatim>\<open>preprocess\<close> with exact arithmetic, so that there a
  real-valued result of the model agrees with the script's up to rounding. In
  \<^verbatim>\<open>preprocess\<close> the results are integers that \<^verbatim>\<open>Math.round\<close> takes from
  rounded doubles, and the quotient and the product carry their rounding to double precision
  (\<open>fl\<close> below). Overflow, \<^verbatim>\<open>NaN\<close> and the infinities are outside the model. The
  only operation of the script that leaves the finite numbers on finite operands is a
  division by zero; every division by a value that can be zero is therefore written with its
  guard, and the outcome \<open>None\<close> (or \<open>NonFinite\<close>) stands for a quotient that is
  \<^verbatim>\<open>NaN\<close> or infinite. Counts and indices are \<^typ>\<open>nat\<close>, class indices (which
  start at the sentinel \<open>-1\<close>) are \<^typ>\<open>int\<close>.
\<close>

subsection \<open>Configuration\<close>

definition INPUT_SIZE :: nat where
  "INPUT_SIZE = 640"

definition CONF_THRESHOLD :: real where
  "CONF_THRESHOLD = 4 / 10"

definition NMS_THRESHOLD :: real where
  "NMS_THRESHOLD = 5 / 10"

definition CLASSES :: "string list" where
  "CLASSES = [''unknown'', ''drone'', ''unknown'', ''unknown'', ''unknown'']"

subsection \<open>Boxes and intersection over union\<close>

text \<open>The object literal pushed by \<^verbatim>\<open>decodeYOLO\<close> and read by \<^verbatim>\<open>iou\<close> and \<^verbatim>\<open>nms\<close>.\<close>

record detection =
  x1 :: real
  y1 :: real
  x2 :: real
  y2 :: real
  score :: real
  classId :: int

text \<open>
  \<^verbatim>\<open>iou(a, b)\<close>, lines 69-80. The denominator is
  \<^verbatim>\<open>boxAArea + boxBArea - interArea + 1e-6\<close>; when it is zero the script divides
  by zero and the result is \<^verbatim>\<open>NaN\<close> (numerator zero) or \<^verbatim>\<open>+Infinity\<close>
  (numerator positive; the numerator is a product of two \<^verbatim>\<open>Math.max(0, ...)\<close> and
  never negative): that is \<open>None\<close>.
\<close>

definition iou :: "detection \<Rightarrow> detection \<Rightarrow> real option" where
  "iou a b =
    (let ix1 = max (x1 a) (x1 b);
         iy1 = max (y1 a) (y1 b);
         ix2 = min (x2 a) (x2 b);
         iy2 = min (y2 a) (y2 b);
         interArea = max 0 (ix2 - ix1) * max 0 (iy2 - iy1);
         boxAArea = (x2 a - x1 a) * (y2 a - y1 a);
         boxBArea = (x2 b - x1 b) * (y2 b - y1 b);
         denom = boxAArea + boxBArea - interArea + 1 / 1000000
     in if denom = 0 then None else Some (interArea / denom))"

text \<open>
  The test \<^verbatim>\<open>iou(current, b) < threshold\<close> of line 90. A comparison with
  \<^verbatim>\<open>NaN\<close> is false, and so is \<^verbatim>\<open>+Infinity < threshold\<close>.
\<close>

definition iou_below :: "detection \<Rightarrow> real \<Rightarrow> detection \<Rightarrow> bool" where
  "iou_below current threshold b =
    (case iou current b of None \<Rightarrow> False | Some r \<Rightarrow> r < threshold)"

subsection \<open>Non-maximum suppression\<close>

text \<open>
  \<^verbatim>\<open>Array.prototype.sort\<close> with a comparator is a stable sort: \<open>a\<close> stays before
  \<open>b\<close> unless the comparator is positive on \<open>(a, b)\<close>. It is modelled by the
  stable insertion sort; the comparator of line 84 is a consistent ordering on finite scores,
  for which every stable sort returns the same array.
\<close>

fun js_insort :: "('a \<Rightarrow> 'a \<Rightarrow> real) \<Rightarrow> 'a \<Rightarrow> 'a list \<Rightarrow> 'a list" where
  "js_insort cmp a [] = [a]"
| "js_insort cmp a (b # bs) =
    (if cmp a b \<le> 0 then a # b # bs else b # js_insort cmp a bs)"

definition js_sort :: "('a \<Rightarrow> 'a \<Rightarrow> real) \<Rightarrow> 'a list \<Rightarrow> 'a list" where
  "js_sort cmp xs = foldr (js_insort cmp) xs []"

text \<open>
  The \<^verbatim>\<open>while\<close> loop of lines 87-91: \<^verbatim>\<open>shift\<close> takes the head,
  \<^verbatim>\<open>push\<close> appends it to \<open>result\<close>, \<^verbatim>\<open>filter\<close> keeps the boxes
  whose overlap with it is below the threshold.
\<close>

function nms_loop :: "detection list \<Rightarrow> real \<Rightarrow> detection list \<Rightarrow> detection list" where
  "nms_loop [] threshold result = result"
| "nms_loop (current # boxes) threshold result =
    nms_loop (filter (iou_below current threshold) boxes) threshold (result @ [current])"
  by pat_completeness auto
termination
  by (relation "measure (\<lambda>(boxes, threshold, result). length boxes)")
     (auto simp: less_Suc_eq_le)

definition nms :: "detection list \<Rightarrow> real \<Rightarrow> detection list" where
  "nms boxes threshold =
    nms_loop (js_sort (\<lambda>a b. score b - score a) boxes) threshold []"

subsection \<open>Letterbox parameters\<close>

text \<open>
  \<^verbatim>\<open>img.width\<close> and \<^verbatim>\<open>img.height\<close> of an image element are non-negative
  integers.
\<close>

record image =
  img_width :: nat
  img_height :: nat

text \<open>
  The constants computed by \<^verbatim>\<open>preprocess\<close>, lines 128-136. The function returns
  \<^verbatim>\<open>scale\<close>, \<^verbatim>\<open>padX\<close> and \<^verbatim>\<open>padY\<close> together with the pixel
  tensor; \<^verbatim>\<open>newW\<close> and \<^verbatim>\<open>newH\<close> are the locals handed to
  \<^verbatim>\<open>drawImage\<close>. The canvas and the pixel buffer are not modelled.
\<close>

record prep =
  prep_scale :: real
  prep_newW :: int
  prep_newH :: int
  prep_padX :: int
  prep_padY :: int

text \<open>\<^verbatim>\<open>Math.round\<close> rounds to the nearest integer, a tie towards \<open>+\<infinity>\<close>.\<close>

definition js_round :: "real \<Rightarrow> int" where
  "js_round x = \<lfloor>x + 1 / 2\<rfloor>"

text \<open>
  Rounding to double precision: the nearest number with a 53-bit significand, a tie to the
  even significand. \<open>round_even\<close> rounds to the nearest integer, a tie to the even one;
  \<open>fl\<close> scales by the unit in the last place of its argument. This is the rounding of an
  IEEE 754 binary64 operation for a result in the normal range, which holds every quotient
  and product of \<^verbatim>\<open>preprocess\<close> for image dimensions below \<open>2^32\<close>.
\<close>

definition round_even :: "real \<Rightarrow> int" where
  "round_even y =
    (let f = \<lfloor>y\<rfloor>; r = y - of_int f
     in if r < 1 / 2 then f else if 1 / 2 < r then f + 1 else if even f then f else f + 1)"

definition fl :: "real \<Rightarrow> real" where
  "fl x =
    (if x = 0 then 0
     else (let u = 2 powr of_int (\<lfloor>log 2 \<bar>x\<bar>\<rfloor> - 52)
           in of_int (round_even (x / u)) * u))"

text \<open>
  \<^verbatim>\<open>INPUT_SIZE / 0\<close> is \<^verbatim>\<open>+Infinity\<close>, and \<^verbatim>\<open>Math.min\<close> of it and a
  finite quotient is the finite quotient. For a 0 by 0 image the scale itself is infinite and
  \<^verbatim>\<open>0 * Infinity\<close> is \<^verbatim>\<open>NaN\<close>: that is \<open>None\<close>. The two quotients and
  the two products are rounded to doubles; \<^verbatim>\<open>INPUT_SIZE - newW\<close> is a difference of
  small integers and its half is exact.
\<close>

definition preprocess :: "image \<Rightarrow> prep option" where
  "preprocess img =
    (let iw = real (img_width img);
         ih = real (img_height img);
         S = real INPUT_SIZE
     in if iw = 0 \<and> ih = 0 then None
        else
          (let scale = (if iw = 0 then fl (S / ih) else if ih = 0 then fl (S / iw)
                        else min (fl (S / iw)) (fl (S / ih)));
               newW = js_round (fl (iw * scale));
               newH = js_round (fl (ih * scale));
               padX = js_round ((S - real_of_int newW) / 2);
               padY = js_round ((S - real_of_int newH) / 2)
           in Some \<lparr>prep_scale = scale, prep_newW = newW, prep_newH = newH,
                     prep_padX = padX, prep_padY = padY\<rparr>))"

subsection \<open>Decoding the output tensor\<close>

text \<open>
  \<^verbatim>\<open>output.data\<close> is a typed array of numbers, \<^verbatim>\<open>output.dims\<close> an array of
  non-negative integers.
\<close>

record tensor =
  data :: "real list"
  dims :: "nat list"

text \<open>A read \<^verbatim>\<open>data[k]\<close>; beyond the end of the array it is \<^verbatim>\<open>undefined\<close>.\<close>

definition data_at :: "real list \<Rightarrow> nat \<Rightarrow> real option" where
  "data_at dat k = (if k < length dat then Some (dat ! k) else None)"

text \<open>
  \<open>TypeError\<close> is the exception of \<^verbatim>\<open>cx.toFixed(1)\<close> (line 213) on
  \<^verbatim>\<open>undefined\<close>. \<open>NonFinite\<close> is no exception of the script: it marks a run in
  which a box coordinate is \<^verbatim>\<open>NaN\<close> or infinite (an \<^verbatim>\<open>undefined\<close>
  geometry value, or a division by a zero scale). The script goes on with such a value; the
  model stops there.
\<close>

datatype error = TypeError | NonFinite

text \<open>
  One round of the loop over the class channels, lines 201-206. The comparison
  \<^verbatim>\<open>score > bestScore\<close> is false when the score is \<^verbatim>\<open>undefined\<close>.
\<close>

definition scan_class :: "real list \<Rightarrow> nat \<Rightarrow> nat \<Rightarrow> nat \<Rightarrow> real \<times> int \<Rightarrow> real \<times> int" where
  "scan_class dat numPreds i c best =
    (case data_at dat (i + (4 + c) * numPreds) of
       None \<Rightarrow> best
     | Some s \<Rightarrow> if s > fst best then (s, int c) else best)"

text \<open>
  Lines 196-207: \<^verbatim>\<open>bestScore = 0\<close>, \<^verbatim>\<open>bestClass = -1\<close>, then
  \<^verbatim>\<open>c\<close> runs from 0 while \<^verbatim>\<open>c < Math.min(numClasses, CLASSES.length)\<close>.
  \<open>known\<close> is \<^verbatim>\<open>CLASSES.length\<close>.
\<close>

definition best_class :: "nat \<Rightarrow> real list \<Rightarrow> nat \<Rightarrow> int \<Rightarrow> nat \<Rightarrow> real \<times> int" where
  "best_class known dat numPreds numClasses i =
    fold (scan_class dat numPreds i) [0 ..< nat (min numClasses (int known))] (0, - 1)"

text \<open>
  The body of the loop over the predictions, lines 190-238, for prediction \<open>i\<close> and
  the detections collected so far. \<open>T\<close> is \<^verbatim>\<open>CONF_THRESHOLD\<close>. The logging of
  lines 212-215 calls \<^verbatim>\<open>toFixed\<close> on \<^verbatim>\<open>cx\<close> and \<^verbatim>\<open>cy\<close> while fewer
  than three detections have been collected.
\<close>

definition decode_pred ::
  "real \<Rightarrow> nat \<Rightarrow> real list \<Rightarrow> nat \<Rightarrow> int \<Rightarrow> real \<Rightarrow> real \<Rightarrow> real \<Rightarrow> real \<Rightarrow> real
    \<Rightarrow> nat \<Rightarrow> detection list \<Rightarrow> error + detection list" where
  "decode_pred T known dat numPreds numClasses imgWidth imgHeight scale padX padY i detections =
    (let cx = data_at dat i;
         cy = data_at dat (i + numPreds);
         w = data_at dat (i + 2 * numPreds);
         h = data_at dat (i + 3 * numPreds);
         best = best_class known dat numPreds numClasses i;
         bestScore = fst best;
         bestClass = snd best
     in if bestScore < T then Inr detections
        else if length detections < 3 \<and> (cx = None \<or> cy = None) then Inl TypeError
        else
          (case cx of None \<Rightarrow> Inl NonFinite | Some cxv \<Rightarrow>
          (case cy of None \<Rightarrow> Inl NonFinite | Some cyv \<Rightarrow>
          (case w of None \<Rightarrow> Inl NonFinite | Some wv \<Rightarrow>
          (case h of None \<Rightarrow> Inl NonFinite | Some hv \<Rightarrow>
             if scale = 0 then Inl NonFinite
             else
               (let x1_model = cxv - wv / 2;
                    y1_model = cyv - hv / 2;
                    x2_model = cxv + wv / 2;
                    y2_model = cyv + hv / 2
                in Inr (detections @
                     [\<lparr>x1 = max 0 (min imgWidth ((x1_model - padX) / scale)),
                       y1 = max 0 (min imgHeight ((y1_model - padY) / scale)),
                       x2 = max 0 (min imgWidth ((x2_model - padX) / scale)),
                       y2 = max 0 (min imgHeight ((y2_model - padY) / scale)),
                       score = bestScore,
                       classId = bestClass\<rparr>])))))))"

text \<open>A \<^verbatim>\<open>for\<close> loop over indices whose body may throw.\<close>

fun for_preds ::
  "(nat \<Rightarrow> detection list \<Rightarrow> error + detection list) \<Rightarrow> nat list \<Rightarrow> detection list
    \<Rightarrow> error + detection list" where
  "for_preds body [] detections = Inr detections"
| "for_preds body (i # is) detections =
    (case body i detections of
       Inl e \<Rightarrow> Inl e
     | Inr detections' \<Rightarrow> for_preds body is detections')"

text \<open>
  \<^verbatim>\<open>decodeYOLO\<close>, lines 164-246, with the three constants it reads as parameters:
  \<open>T\<close> for \<^verbatim>\<open>CONF_THRESHOLD\<close>, \<open>tau\<close> for \<^verbatim>\<open>NMS_THRESHOLD\<close>,
  \<open>known\<close> for \<^verbatim>\<open>CLASSES.length\<close>. A \<^verbatim>\<open>dims\<close> array that has not
  three entries is logged and answered with the empty array.
\<close>

definition decodeYOLO_with ::
  "real \<Rightarrow> real \<Rightarrow> nat \<Rightarrow> tensor \<Rightarrow> real \<Rightarrow> real \<Rightarrow> real \<Rightarrow> real \<Rightarrow> real
    \<Rightarrow> error + detection list" where
  "decodeYOLO_with T tau known output imgWidth imgHeight scale padX padY =
    (case dims output of
       [batch, numAttrs, numPreds] \<Rightarrow>
         (let numClasses = int numAttrs - 4
          in case for_preds
                    (decode_pred T known (data output) numPreds numClasses
                       imgWidth imgHeight scale padX padY)
                    [0 ..< numPreds] [] of
               Inl e \<Rightarrow> Inl e
             | Inr detections \<Rightarrow> Inr (nms detections tau))
     | _ \<Rightarrow> Inr [])"

text \<open>The function as the script has it.\<close>

definition decodeYOLO ::
  "tensor \<Rightarrow> real \<Rightarrow> real \<Rightarrow> real \<Rightarrow> real \<Rightarrow> real \<Rightarrow> error + detection list" where
  "decodeYOLO = decodeYOLO_with CONF_THRESHOLD NMS_THRESHOLD (length CLASSES)"

subsection \<open>Vocabulary of the specification\<close>

text \<open>
  The area of a box as \<^verbatim>\<open>iou\<close> computes it, the area of the axis-aligned overlap
  of two boxes, a box whose corners are in order, and two boxes that do not overlap.
\<close>

definition box_area :: "detection \<Rightarrow> real" where
  "box_area a = (x2 a - x1 a) * (y2 a - y1 a)"

definition inter_area :: "detection \<Rightarrow> detection \<Rightarrow> real" where
  "inter_area a b =
     max 0 (min (x2 a) (x2 b) - max (x1 a) (x1 b)) *
     max 0 (min (y2 a) (y2 b) - max (y1 a) (y1 b))"

definition well_formed :: "detection \<Rightarrow> bool" where
  "well_formed a = (x1 a \<le> x2 a \<and> y1 a \<le> y2 a)"

definition disjoint_boxes :: "detection \<Rightarrow> detection \<Rightarrow> bool" where
  "disjoint_boxes a b =
     (x2 a \<le> x1 b \<or> x2 b \<le> x1 a \<or> y2 a \<le> y1 b \<or> y2 b \<le> y1 a)"

text \<open>
  The score of class channel \<open>c\<close> for prediction \<open>i\<close>: attribute \<open>4 + c\<close>, flat
  index \<open>(4 + c) * P + i\<close>; and the number of class channels the decoder scans,
  \<open>min(C, known-classes)\<close>, none when that is negative.
\<close>

definition class_score :: "real list \<Rightarrow> nat \<Rightarrow> nat \<Rightarrow> nat \<Rightarrow> real option" where
  "class_score dat numPreds i c = data_at dat (i + (4 + c) * numPreds)"

definition scanned :: "nat \<Rightarrow> int \<Rightarrow> nat" where
  "scanned known numClasses = nat (min numClasses (int known))"

text \<open>
  The Letterbox Transform in the words of the specification, section 4.1, for source
  dimensions \<open>(srcW, srcH)\<close> and target size \<open>S\<close>, in exact arithmetic.
\<close>

definition letterbox_spec :: "real \<Rightarrow> real \<Rightarrow> real \<Rightarrow> prep" where
  "letterbox_spec S srcW srcH =
    (let scale = min (S / srcW) (S / srcH);
         newW = round (srcW * scale);
         newH = round (srcH * scale);
         padX = round ((S - real_of_int newW) / 2);
         padY = round ((S - real_of_int newH) / 2)
     in \<lparr>prep_scale = scale, prep_newW = newW, prep_newH = newH,
          prep_padX = padX, prep_padY = padY\<rparr>)"

text \<open>
  The Coordinate Remapper in the words of the specification, section 4.3: corners from
  centre and size, the inverse letterbox mapping, and the clamp to the image.
\<close>

definition clamp_spec :: "real \<Rightarrow> real \<Rightarrow> real \<Rightarrow> real" where
  "clamp_spec lo hi v = (if v < lo then lo else if hi < v then hi else v)"

definition remap_spec ::
  "real \<Rightarrow> real \<Rightarrow> real \<Rightarrow> real \<Rightarrow> real \<Rightarrow> int \<Rightarrow> real \<Rightarrow> real \<Rightarrow> real \<Rightarrow> real \<Rightarrow> real
    \<Rightarrow> detection" where
  "remap_spec cx cy w h s c scale padX padY imgW imgH =
    (let cx1 = cx - w / 2;
         cy1 = cy - h / 2;
         cx2 = cx + w / 2;
         cy2 = cy + h / 2
     in \<lparr>x1 = clamp_spec 0 imgW ((cx1 - padX) / scale),
          y1 = clamp_spec 0 imgH ((cy1 - padY) / scale),
          x2 = clamp_spec 0 imgW ((cx2 - padX) / scale),
          y2 = clamp_spec 0 imgH ((cy2 - padY) / scale),
          score = s,
          classId = c\<rparr>)"

text \<open>
  The decoded widths and heights (attribute channels 2 and 3) of a rank-3 tensor are all
  non-negative.
\<close>

definition sizes_nonneg :: "tensor \<Rightarrow> bool" where
  "sizes_nonneg output =
    (case dims output of
       [batch, numAttrs, numPreds] \<Rightarrow>
         (\<forall>i\<in>set [0 ..< numPreds].
            (case data_at (data output) (i + 2 * numPreds) of None \<Rightarrow> True | Some w \<Rightarrow> 0 \<le> w) \<and>
            (case data_at (data output) (i + 3 * numPreds) of None \<Rightarrow> True | Some h \<Rightarrow> 0 \<le> h))
     | _ \<Rightarrow> True)"

text \<open>
  A number that keeps a distance of at least \<open>2^-42\<close> from every half-integer
  \<open>k + 1/2\<close>, the points where rounding to the nearest integer jumps.
\<close>

definition clear_of_ties :: "real \<Rightarrow> bool" where
  "clear_of_ties t = (1 / 2 ^ 42 \<le> frac (t + 1 / 2) \<and> frac (t + 1 / 2) \<le> 1 - 1 / 2 ^ 42)"

subsection \<open>Properties of \<open>iou\<close>\<close>

lemma iou_commute: "iou a b = iou b a"
  by (simp add: iou_def Let_def max.commute min.commute add.commute)

lemma iou_unfold:
  "iou a b =
    (if box_area a + box_area b - inter_area a b + 1 / 1000000 = 0 then None
     else Some (inter_area a b / (box_area a + box_area b - inter_area a b + 1 / 1000000)))"
  unfolding iou_def Let_def box_area_def inter_area_def by (rule refl)

lemma iou_self_pos:
  assumes "x1 a < x2 a" "y1 a < y2 a"
  shows "iou a a = Some (box_area a / (box_area a + 1 / 1000000))"
proof -
  have pos: "0 < box_area a" using assms by (simp add: box_area_def)
  have "inter_area a a = box_area a"
    using assms by (simp add: box_area_def inter_area_def max_def)
  then show ?thesis using pos by (simp add: iou_unfold)
qed

lemma iou_self_zero:
  assumes "box_area a = 0"
  shows "iou a a = Some 0"
proof -
  have "x2 a = x1 a \<or> y2 a = y1 a" using assms by (simp add: box_area_def)
  then have "inter_area a a = 0" by (auto simp: inter_area_def)
  then show ?thesis using assms by (simp add: iou_unfold)
qed

lemma iou_disjoint:
  assumes "well_formed a" "well_formed b" "disjoint_boxes a b"
  shows "iou a b = Some 0"
proof -
  have inter: "inter_area a b = 0"
    using assms(3) by (auto simp: disjoint_boxes_def inter_area_def max_def min_def)
  have "0 \<le> box_area a" "0 \<le> box_area b"
    using assms(1,2) by (simp_all add: well_formed_def box_area_def)
  then have "box_area a + box_area b + 1 / 1000000 \<noteq> 0" by linarith
  then show ?thesis using inter by (simp add: iou_unfold)
qed

lemma ratio_bounds:
  fixes A :: real assumes "0 < A"
  shows "0 \<le> A / (A + 1 / 1000000)" "A / (A + 1 / 1000000) \<le> 1"
    "1 \<le> A \<Longrightarrow> 1 - 1 / 1000000 \<le> A / (A + 1 / 1000000)"
  using assms by (simp_all add: field_simps)

text \<open>
  Claim C7. The overlap measure is symmetric: \<open>iou a b\<close> and \<open>iou b a\<close> are the same
  value for all boxes \<open>a\<close> and \<open>b\<close> (the same number, or both not finite).
\<close>

theorem iou_symmetric: "iou a b = iou b a"
  by (rule iou_commute)

text \<open>
  Claim C8, as the script has it. For a box of positive area \<open>iou a a\<close> lies between 0
  and 1, and within \<open>1e-6\<close> of 1 when the area is at least 1; for a box of area zero
  it is 0, the added \<^verbatim>\<open>1e-6\<close> being all of the denominator. Two boxes with ordered
  corners that do not overlap have overlap measure 0.
\<close>

theorem iou_self_and_disjoint:
  "(x1 a < x2 a \<and> y1 a < y2 a \<longrightarrow>
      (\<exists>r. iou a a = Some r \<and> 0 \<le> r \<and> r \<le> 1 \<and>
           (1 \<le> box_area a \<longrightarrow> 1 - 1 / 1000000 \<le> r))) \<and>
   (box_area a = 0 \<longrightarrow> iou a a = Some 0) \<and>
   (well_formed a \<and> well_formed b \<and> disjoint_boxes a b \<longrightarrow> iou a b = Some 0)"
proof (intro conjI impI)
  assume h: "x1 a < x2 a \<and> y1 a < y2 a"
  then have pos: "0 < box_area a" by (simp add: box_area_def)
  have "iou a a = Some (box_area a / (box_area a + 1 / 1000000))"
    using h by (simp add: iou_self_pos)
  moreover have "0 \<le> box_area a / (box_area a + 1 / 1000000)"
    using pos by (rule ratio_bounds)
  moreover have "box_area a / (box_area a + 1 / 1000000) \<le> 1"
    using pos by (rule ratio_bounds)
  moreover have "1 \<le> box_area a \<longrightarrow>
      1 - 1 / 1000000 \<le> box_area a / (box_area a + 1 / 1000000)"
    using ratio_bounds(3)[OF pos] by blast
  ultimately show "\<exists>r. iou a a = Some r \<and> 0 \<le> r \<and> r \<le> 1 \<and>
           (1 \<le> box_area a \<longrightarrow> 1 - 1 / 1000000 \<le> r)"
    by blast
next
  assume "box_area a = 0"
  then show "iou a a = Some 0" by (rule iou_self_zero)
next
  assume "well_formed a \<and> well_formed b \<and> disjoint_boxes a b"
  then show "iou a b = Some 0" by (simp add: iou_disjoint)
qed

theorem iou_self_and_disjoint_witness:
  "iou \<lparr>x1 = 0, y1 = 0, x2 = 10, y2 = 10, score = 9 / 10, classId = 1\<rparr>
       \<lparr>x1 = 0, y1 = 0, x2 = 10, y2 = 10, score = 9 / 10, classId = 1\<rparr>
     = Some (100 / (100 + 1 / 1000000)) \<and>
   (1 - 1 / 1000000 :: real) \<le> 100 / (100 + 1 / 1000000) \<and>
   iou \<lparr>x1 = 5, y1 = 0, x2 = 5, y2 = 10, score = 9 / 10, classId = 1\<rparr>
       \<lparr>x1 = 5, y1 = 0, x2 = 5, y2 = 10, score = 9 / 10, classId = 1\<rparr> = Some 0 \<and>
   iou \<lparr>x1 = 0, y1 = 0, x2 = 10, y2 = 10, score = 9 / 10, classId = 1\<rparr>
       \<lparr>x1 = 20, y1 = 0, x2 = 30, y2 = 10, score = 6 / 10, classId = 1\<rparr> = Some 0"
  using iou_self_and_disjoint
          [of "\<lparr>x1 = 0, y1 = 0, x2 = 10, y2 = 10, score = 9 / 10, classId = 1\<rparr>"
              "\<lparr>x1 = 20, y1 = 0, x2 = 30, y2 = 10, score = 6 / 10, classId = 1\<rparr>"]
        iou_self_and_disjoint
          [of "\<lparr>x1 = 5, y1 = 0, x2 = 5, y2 = 10, score = 9 / 10, classId = 1\<rparr>"]
  by (simp add: box_area_def well_formed_def disjoint_boxes_def iou_def)

text \<open>
  A box of area zero has overlap measure 0 with itself, a box of area \<open>1e-6\<close> has
  \<open>1/2\<close>.
\<close>

theorem iou_self_not_one_counterexample:
  "iou \<lparr>x1 = 0, y1 = 0, x2 = 0, y2 = 0, score = 1, classId = 0\<rparr>
       \<lparr>x1 = 0, y1 = 0, x2 = 0, y2 = 0, score = 1, classId = 0\<rparr> = Some 0 \<and>
   iou \<lparr>x1 = 0, y1 = 0, x2 = 1 / 1000, y2 = 1 / 1000, score = 1, classId = 0\<rparr>
       \<lparr>x1 = 0, y1 = 0, x2 = 1 / 1000, y2 = 1 / 1000, score = 1, classId = 0\<rparr>
     = Some (1 / 2)"
  by (simp add: iou_def)

subsection \<open>Properties of \<open>nms\<close>\<close>

lemma nms_loop_acc: "nms_loop bs t acc = acc @ nms_loop bs t []"
proof (induction "length bs" arbitrary: bs acc rule: less_induct)
  case less
  show ?case
  proof (cases bs)
    case Nil
    then show ?thesis by simp
  next
    case (Cons c rest)
    let ?f = "filter (iou_below c t) rest"
    have len: "length ?f < length bs"
      using Cons by (simp add: less_Suc_eq_le)
    have "nms_loop bs t acc = (acc @ [c]) @ nms_loop ?f t []"
      using less[OF len, of "acc @ [c]"] Cons by simp
    moreover have "nms_loop bs t [] = [c] @ nms_loop ?f t []"
      using less[OF len, of "[c]"] Cons by simp
    ultimately show ?thesis by simp
  qed
qed

lemma nms_loop_Cons:
  "nms_loop (c # bs) t [] = c # nms_loop (filter (iou_below c t) bs) t []"
  using nms_loop_acc[of "filter (iou_below c t) bs" t "[c]"] by simp

lemma mset_nms_loop: "mset (nms_loop bs t []) \<subseteq># mset bs"
proof (induction "length bs" arbitrary: bs rule: less_induct)
  case less
  show ?case
  proof (cases bs)
    case Nil
    then show ?thesis by simp
  next
    case (Cons c rest)
    have "length (filter (iou_below c t) rest) < length bs"
      using Cons by (simp add: less_Suc_eq_le)
    then have "mset (nms_loop (filter (iou_below c t) rest) t []) \<subseteq># mset (filter (iou_below c t) rest)"
      using less by blast
    also have "\<dots> \<subseteq># mset rest" by simp
    finally show ?thesis using Cons by (simp add: nms_loop_Cons del: nms_loop.simps)
  qed
qed

lemma set_nms_loop: "set (nms_loop bs t []) \<subseteq> set bs"
  using mset_nms_loop[of bs t] set_mset_mono by fastforce

lemma mset_js_insort: "mset (js_insort cmp a bs) = add_mset a (mset bs)"
  by (induction bs) auto

lemma mset_js_sort: "mset (js_sort cmp xs) = mset xs"
  by (induction xs) (auto simp: js_sort_def mset_js_insort)

lemma pairwise_nms_loop: "sorted_wrt (\<lambda>c b. iou_below c t b) (nms_loop bs t [])"
proof (induction "length bs" arbitrary: bs rule: less_induct)
  case less
  show ?case
  proof (cases bs)
    case Nil
    then show ?thesis by simp
  next
    case (Cons c rest)
    have "length (filter (iou_below c t) rest) < length bs"
      using Cons by (simp add: less_Suc_eq_le)
    then have IH: "sorted_wrt (\<lambda>c b. iou_below c t b) (nms_loop (filter (iou_below c t) rest) t [])"
      using less by blast
    have "\<forall>b \<in> set (nms_loop (filter (iou_below c t) rest) t []). iou_below c t b"
      using set_nms_loop[of "filter (iou_below c t) rest" t] by auto
    then show ?thesis using Cons IH by (simp add: nms_loop_Cons del: nms_loop.simps)
  qed
qed

lemma sorted_wrt_nms_loop: "sorted_wrt R bs \<Longrightarrow> sorted_wrt R (nms_loop bs t [])"
proof (induction "length bs" arbitrary: bs rule: less_induct)
  case less
  show ?case
  proof (cases bs)
    case Nil
    then show ?thesis by simp
  next
    case (Cons c rest)
    let ?f = "filter (iou_below c t) rest"
    have "length ?f < length bs"
      using Cons by (simp add: less_Suc_eq_le)
    moreover have "sorted_wrt R ?f" using less.prems Cons by (simp add: sorted_wrt_filter)
    ultimately have IH: "sorted_wrt R (nms_loop ?f t [])"
      using less.hyps by blast
    have "\<forall>b \<in> set (nms_loop ?f t []). R c b"
      using set_nms_loop[of ?f t] less.prems Cons by auto
    then show ?thesis using Cons IH by (simp add: nms_loop_Cons del: nms_loop.simps)
  qed
qed

lemma nms_loop_id: "sorted_wrt (\<lambda>c b. iou_below c t b) xs \<Longrightarrow> nms_loop xs t [] = xs"
proof (induction xs)
  case Nil
  then show ?case by simp
next
  case (Cons c xs)
  then have "filter (iou_below c t) xs = xs" by (simp add: filter_id_conv)
  then show ?case using Cons by (simp add: nms_loop_Cons del: nms_loop.simps)
qed

lemma js_sort_id: "sorted_wrt (\<lambda>a b. cmp a b \<le> 0) xs \<Longrightarrow> js_sort cmp xs = xs"
proof (induction xs)
  case Nil
  then show ?case by (simp add: js_sort_def)
next
  case (Cons a xs)
  then have "js_sort cmp (a # xs) = js_insort cmp a xs" by (simp add: js_sort_def)
  then show ?case using Cons.prems by (cases xs) auto
qed

lemma set_js_insort: "set (js_insort cmp a bs) = insert a (set bs)"
  by (induction bs) auto

lemma sorted_js_insort:
  "sorted_wrt (\<lambda>a b. score b \<le> score a) bs \<Longrightarrow>
   sorted_wrt (\<lambda>a b. score b \<le> score a) (js_insort (\<lambda>a b. score b - score a) a bs)"
  by (induction bs) (auto simp: set_js_insort)

lemma sorted_js_sort:
  "sorted_wrt (\<lambda>a b. score b \<le> score a) (js_sort (\<lambda>a b. score b - score a) xs)"
  by (induction xs) (simp_all add: js_sort_def sorted_js_insort)

lemma nms_idem: "nms (nms D t) t = nms D t"
proof -
  let ?cmp = "\<lambda>a b :: detection. score b - score a"
  have "sorted_wrt (\<lambda>a b. score b \<le> score a) (nms D t)"
    unfolding nms_def by (rule sorted_wrt_nms_loop) (rule sorted_js_sort)
  then have "sorted_wrt (\<lambda>a b. ?cmp a b \<le> 0) (nms D t)" by simp
  then have "js_sort ?cmp (nms D t) = nms D t" by (rule js_sort_id)
  moreover have "nms_loop (nms D t) t [] = nms D t"
    unfolding nms_def by (rule nms_loop_id) (rule pairwise_nms_loop)
  ultimately show ?thesis by (simp add: nms_def)
qed

text \<open>
  Claim C3. The suppressor returns detections of its input only (as a multiset, hence as a
  set), running it again on its own output with the same threshold changes nothing, and any
  two detections of the output have a finite overlap measure below the threshold, in either
  order.
\<close>

theorem nms_subset_idempotent_separated:
  "mset (nms D t) \<subseteq># mset D \<and>
   set (nms D t) \<subseteq> set D \<and>
   nms (nms D t) t = nms D t \<and>
   (\<forall>i j. i < j \<and> j < length (nms D t) \<longrightarrow>
      (\<exists>r. iou (nms D t ! i) (nms D t ! j) = Some r \<and> r < t) \<and>
      (\<exists>r. iou (nms D t ! j) (nms D t ! i) = Some r \<and> r < t))"
proof (intro conjI allI impI)
  have "mset (nms D t) \<subseteq># mset (js_sort (\<lambda>a b. score b - score a) D)"
    unfolding nms_def by (rule mset_nms_loop)
  then show sub: "mset (nms D t) \<subseteq># mset D" by (simp add: mset_js_sort)
  show "set (nms D t) \<subseteq> set D" using sub set_mset_mono by fastforce
  show "nms (nms D t) t = nms D t" by (rule nms_idem)
next
  fix i j
  assume ij: "i < j \<and> j < length (nms D t)"
  have "sorted_wrt (\<lambda>c b. iou_below c t b) (nms D t)"
    unfolding nms_def by (rule pairwise_nms_loop)
  then have "iou_below (nms D t ! i) t (nms D t ! j)"
    using ij by (simp add: sorted_wrt_iff_nth_less)
  then show fwd: "\<exists>r. iou (nms D t ! i) (nms D t ! j) = Some r \<and> r < t"
    by (simp add: iou_below_def split: option.splits)
  then show "\<exists>r. iou (nms D t ! j) (nms D t ! i) = Some r \<and> r < t"
    by (simp add: iou_commute)
qed

theorem nms_subset_idempotent_separated_witness:
  "nms [\<lparr>x1 = 0, y1 = 0, x2 = 10, y2 = 10, score = 6 / 10, classId = 1\<rparr>,
        \<lparr>x1 = 0, y1 = 0, x2 = 10, y2 = 8, score = 9 / 10, classId = 1\<rparr>,
        \<lparr>x1 = 20, y1 = 20, x2 = 30, y2 = 30, score = 5 / 10, classId = 0\<rparr>] (1 / 2)
     = [\<lparr>x1 = 0, y1 = 0, x2 = 10, y2 = 8, score = 9 / 10, classId = 1\<rparr>,
        \<lparr>x1 = 20, y1 = 20, x2 = 30, y2 = 30, score = 5 / 10, classId = 0\<rparr>] \<and>
   nms [\<lparr>x1 = 0, y1 = 0, x2 = 10, y2 = 8, score = 9 / 10, classId = 1\<rparr>,
        \<lparr>x1 = 20, y1 = 20, x2 = 30, y2 = 30, score = 5 / 10, classId = 0\<rparr>] (1 / 2)
     = [\<lparr>x1 = 0, y1 = 0, x2 = 10, y2 = 8, score = 9 / 10, classId = 1\<rparr>,
        \<lparr>x1 = 20, y1 = 20, x2 = 30, y2 = 30, score = 5 / 10, classId = 0\<rparr>] \<and>
   iou \<lparr>x1 = 0, y1 = 0, x2 = 10, y2 = 8, score = 9 / 10, classId = 1\<rparr>
       \<lparr>x1 = 20, y1 = 20, x2 = 30, y2 = 30, score = 5 / 10, classId = 0\<rparr> = Some 0"
  using nms_subset_idempotent_separated
          [of "[\<lparr>x1 = 0, y1 = 0, x2 = 10, y2 = 10, score = 6 / 10, classId = 1\<rparr>,
                \<lparr>x1 = 0, y1 = 0, x2 = 10, y2 = 8, score = 9 / 10, classId = 1\<rparr>,
                \<lparr>x1 = 20, y1 = 20, x2 = 30, y2 = 30, score = 5 / 10, classId = 0\<rparr>]"
              "1 / 2"]
  by (simp add: nms_def js_sort_def iou_below_def iou_def)

subsection \<open>The letterbox parameters of \<open>preprocess\<close>\<close>

lemma round_even_err: "\<bar>of_int (round_even y) - y\<bar> \<le> 1 / 2"
proof -
  have "of_int \<lfloor>y\<rfloor> \<le> y" "y < of_int \<lfloor>y\<rfloor> + 1" by linarith+
  then show ?thesis by (auto simp: round_even_def Let_def)
qed

lemma floor_log2_eq:
  assumes "0 < x" "2 ^ 52 \<le> x * 2 ^ k" "x * 2 ^ k < 2 ^ 53"
  shows "\<lfloor>log 2 x\<rfloor> = 52 - int k"
proof -
  have pos: "0 < x * 2 ^ k" using assms(1) by simp
  have "log 2 (x * 2 ^ k) = log 2 x + real k"
    using assms(1) by (simp add: log_mult log_nat_power)
  moreover have "52 \<le> log 2 (x * 2 ^ k)"
    using assms(2) pos by (simp add: le_log_iff)
  moreover have "log 2 (x * 2 ^ k) < 53"
    using assms(3) pos by (simp add: log_less_iff)
  ultimately have "52 - real k \<le> log 2 x" "log 2 x < 53 - real k" by linarith+
  then show ?thesis by (simp add: floor_eq_iff)
qed

lemma fl_eval:
  assumes "0 < x" "2 ^ 52 \<le> x * 2 ^ k" "x * 2 ^ k < 2 ^ 53"
  shows "fl x = of_int (round_even (x * 2 ^ k)) / 2 ^ k"
proof -
  have "\<lfloor>log 2 \<bar>x\<bar>\<rfloor> - 52 = - int k"
    using floor_log2_eq[OF assms] assms(1) by simp
  moreover have "(2 :: real) powr of_int (- int k) = 1 / (2 :: real) ^ k"
    by (simp add: powr_minus powr_realpow divide_simps)
  ultimately show ?thesis using assms(1) by (simp add: fl_def Let_def)
qed

lemma fl_err:
  assumes "0 < x"
  shows "\<bar>fl x - x\<bar> \<le> x / 2 ^ 53"
proof -
  define e where "e = \<lfloor>log 2 x\<rfloor>"
  define u where "u = (2 :: real) powr of_int (e - 52)"
  have upos: "0 < u" by (simp add: u_def)
  have fl: "fl x = of_int (round_even (x / u)) * u"
    using assms by (simp add: fl_def Let_def u_def e_def)
  have "\<bar>of_int (round_even (x / u)) - x / u\<bar> \<le> 1 / 2" by (rule round_even_err)
  then have "\<bar>of_int (round_even (x / u)) - x / u\<bar> * u \<le> 1 / 2 * u"
    using upos by (simp add: mult_right_mono)
  moreover have "\<bar>of_int (round_even (x / u)) - x / u\<bar> * u = \<bar>fl x - x\<bar>"
  proof -
    have "\<bar>of_int (round_even (x / u)) - x / u\<bar> * u
        = \<bar>(of_int (round_even (x / u)) - x / u) * u\<bar>"
      using upos by (simp add: abs_mult)
    also have "(of_int (round_even (x / u)) - x / u) * u = fl x - x"
      using upos by (simp add: fl algebra_simps)
    finally show ?thesis .
  qed
  ultimately have half: "\<bar>fl x - x\<bar> \<le> u / 2" by simp
  have "(2 :: real) powr of_int e \<le> x"
  proof -
    have "of_int e \<le> log 2 x" by (simp add: e_def)
    then show ?thesis using assms by (simp add: le_log_iff)
  qed
  moreover have "u = 2 powr of_int e / 2 ^ 52"
    by (simp add: u_def powr_diff)
  ultimately have "u \<le> x / 2 ^ 52" by (simp add: divide_right_mono)
  then show ?thesis using half by simp
qed

lemma fl_zero: "fl 0 = 0"
  by (simp add: fl_def)


lemma fl_pos_bounds:
  assumes "0 < x"
  shows "x - x / 2 ^ 53 \<le> fl x" "fl x \<le> x + x / 2 ^ 53"
  using fl_err[OF assms] by linarith+

lemma scale_err:
  fixes a b :: real
  assumes "0 < a" "0 < b"
  shows "\<bar>min (fl a) (fl b) - min a b\<bar> \<le> min a b / 2 ^ 53"
proof -
  note A = fl_pos_bounds[OF assms(1)] and B = fl_pos_bounds[OF assms(2)]
  have mono: "(x :: real) \<le> y \<Longrightarrow> x - x / 2 ^ 53 \<le> y - y / 2 ^ 53" for x y
    by (simp add: field_simps)
  show ?thesis
  proof (cases "a \<le> b")
    case True
    then have m: "min a b = a" by simp
    have "min (fl a) (fl b) \<le> a + a / 2 ^ 53" using A(2) by linarith
    moreover have "a - a / 2 ^ 53 \<le> min (fl a) (fl b)"
      using A(1) B(1) mono[OF True] by linarith
    ultimately show ?thesis unfolding m by linarith
  next
    case False
    then have m: "min a b = b" and le: "b \<le> a" by simp_all
    have "min (fl a) (fl b) \<le> b + b / 2 ^ 53" using B(2) by linarith
    moreover have "b - b / 2 ^ 53 \<le> min (fl a) (fl b)"
      using A(1) B(1) mono[OF le] by linarith
    ultimately show ?thesis unfolding m by linarith
  qed
qed

lemma prod_err:
  fixes d q s :: real
  assumes "0 < d" "0 < q" "\<bar>s - q\<bar> \<le> q / 2 ^ 53" "d * q \<le> 640"
  shows "\<bar>fl (d * s) - d * q\<bar> < 1 / 2 ^ 42"
proof -
  have slo: "q - q / 2 ^ 53 \<le> s" and shi: "s \<le> q + q / 2 ^ 53"
    using assms(3) by linarith+
  have "0 < q - q / 2 ^ 53" using assms(2) by (simp add: field_simps)
  then have spos: "0 < s" using slo by linarith
  then have ypos: "0 < d * s" using assms(1) by simp
  have e1: "\<bar>fl (d * s) - d * s\<bar> \<le> d * s / 2 ^ 53" by (rule fl_err[OF ypos])
  have "\<bar>d * s - d * q\<bar> = d * \<bar>s - q\<bar>"
    using assms(1) by (simp add: abs_mult flip: right_diff_distrib)
  also have "\<dots> \<le> d * (q / 2 ^ 53)"
    using assms(1,3) by (simp add: mult_left_mono)
  finally have e2: "\<bar>d * s - d * q\<bar> \<le> d * q / 2 ^ 53" by simp
  have "d * s \<le> d * (q + q / 2 ^ 53)" using shi assms(1) by (simp add: mult_left_mono)
  then have "d * s \<le> d * q + d * q / 2 ^ 53" by (simp add: algebra_simps)
  then have "d * s \<le> 640 + 640 / 2 ^ 53" using assms(4) by simp
  then have "d * s / 2 ^ 53 \<le> (640 + 640 / 2 ^ 53) / 2 ^ 53"
    by (simp add: divide_right_mono)
  moreover have "d * q / 2 ^ 53 \<le> 640 / 2 ^ 53" using assms(4) by (simp add: divide_right_mono)
  ultimately have "\<bar>fl (d * s) - d * q\<bar> \<le> (640 + 640 / 2 ^ 53) / 2 ^ 53 + 640 / 2 ^ 53"
    using e1 e2 by linarith
  also have "\<dots> < 1 / 2 ^ 42" by simp
  finally show ?thesis .
qed

lemma round_stable:
  fixes p t :: real
  assumes "\<bar>p - t\<bar> < 1 / 2 ^ 42" "clear_of_ties t"
  shows "js_round p = round t"
proof -
  define n where "n = \<lfloor>t + 1 / 2\<rfloor>"
  have f: "frac (t + 1 / 2) = t + 1 / 2 - of_int n" by (simp add: frac_def n_def)
  have lo: "of_int n + 1 / 2 ^ 42 \<le> t + 1 / 2" and hi: "t + 1 / 2 \<le> of_int n + 1 - 1 / 2 ^ 42"
    using assms(2) unfolding clear_of_ties_def f by linarith+
  have "of_int n \<le> p + 1 / 2" "p + 1 / 2 < of_int n + 1"
    using assms(1) lo hi by linarith+
  then have "\<lfloor>p + 1 / 2\<rfloor> = n" by (simp add: floor_eq_iff)
  then show ?thesis by (simp add: js_round_def round_def n_def)
qed

lemma fit_le:
  fixes w h :: real
  assumes "0 < w" "0 < h"
  shows "w * min (640 / w) (640 / h) \<le> 640" "h * min (640 / w) (640 / h) \<le> 640"
    "0 < min (640 / w) (640 / h)"
proof -
  have "w * min (640 / w) (640 / h) \<le> w * (640 / w)"
    using assms(1) by (intro mult_left_mono) simp_all
  then show "w * min (640 / w) (640 / h) \<le> 640" using assms(1) by simp
  have "h * min (640 / w) (640 / h) \<le> h * (640 / h)"
    using assms(2) by (intro mult_left_mono) simp_all
  then show "h * min (640 / w) (640 / h) \<le> 640" using assms(2) by simp
  show "0 < min (640 / w) (640 / h)" using assms by simp
qed

lemma preprocess_eval:
  assumes "img_width img = W" "img_height img = H" "0 < W" "0 < H"
    and "min (fl (640 / real W)) (fl (640 / real H)) = s"
    and "fl (real W * s) = pw" "fl (real H * s) = ph"
  shows "preprocess img =
    Some \<lparr>prep_scale = s, prep_newW = js_round pw, prep_newH = js_round ph,
          prep_padX = js_round ((640 - real_of_int (js_round pw)) / 2),
          prep_padY = js_round ((640 - real_of_int (js_round ph)) / 2)\<rparr>"
  using assms by (simp add: preprocess_def Let_def INPUT_SIZE_def)

lemma prep_1920_1080:
  "preprocess \<lparr>img_width = 1920, img_height = 1080\<rparr> =
     Some \<lparr>prep_scale = 6004799503160661 / 2 ^ 54, prep_newW = 640, prep_newH = 360,
           prep_padX = 0, prep_padY = 140\<rparr>"
proof -
  have a: "fl (640 / real (1920 :: nat)) = 6004799503160661 / 2 ^ 54"
    by (subst fl_eval[where k = 54]) (simp_all add: round_even_def Let_def)
  have b: "fl (640 / real (1080 :: nat)) = 5337599558365032 / 2 ^ 53"
    by (subst fl_eval[where k = 53]) (simp_all add: round_even_def Let_def)
  have s: "min (fl (640 / real (1920 :: nat))) (fl (640 / real (1080 :: nat)))
      = 6004799503160661 / 2 ^ 54"
    unfolding a b by simp
  have c: "fl (real (1920 :: nat) * (6004799503160661 / 2 ^ 54)) = 640"
    by (subst fl_eval[where k = 43]) (simp_all add: round_even_def Let_def)
  have d: "fl (real (1080 :: nat) * (6004799503160661 / 2 ^ 54)) = 360"
    by (subst fl_eval[where k = 44]) (simp_all add: round_even_def Let_def)
  have "preprocess \<lparr>img_width = 1920, img_height = 1080\<rparr> =
    Some \<lparr>prep_scale = 6004799503160661 / 2 ^ 54, prep_newW = js_round 640,
          prep_newH = js_round 360,
          prep_padX = js_round ((640 - real_of_int (js_round 640)) / 2),
          prep_padY = js_round ((640 - real_of_int (js_round 360)) / 2)\<rparr>"
    by (rule preprocess_eval[OF _ _ _ _ s c d]) simp_all
  then show ?thesis by (simp add: js_round_def)
qed

lemma prep_9984_117:
  "preprocess \<lparr>img_width = 9984, img_height = 117\<rparr> =
     Some \<lparr>prep_scale = 4619076540892816 / 2 ^ 56, prep_newW = 640, prep_newH = 7,
           prep_padX = 0, prep_padY = 317\<rparr>"
proof -
  have a: "fl (640 / real (9984 :: nat)) = 4619076540892816 / 2 ^ 56"
    by (subst fl_eval[where k = 56]) (simp_all add: round_even_def Let_def)
  have b: "fl (640 / real (117 :: nat)) = 6158768721190422 / 2 ^ 50"
    by (subst fl_eval[where k = 50]) (simp_all add: round_even_def Let_def)
  have s: "min (fl (640 / real (9984 :: nat))) (fl (640 / real (117 :: nat)))
      = 4619076540892816 / 2 ^ 56"
    unfolding a b by simp
  have c: "fl (real (9984 :: nat) * (4619076540892816 / 2 ^ 56)) = 640"
    by (subst fl_eval[where k = 43]) (simp_all add: round_even_def Let_def)
  have d: "fl (real (117 :: nat) * (4619076540892816 / 2 ^ 56)) = 8444249301319679 / 2 ^ 50"
    by (subst fl_eval[where k = 50]) (simp_all add: round_even_def Let_def)
  have "preprocess \<lparr>img_width = 9984, img_height = 117\<rparr> =
    Some \<lparr>prep_scale = 4619076540892816 / 2 ^ 56, prep_newW = js_round 640,
          prep_newH = js_round (8444249301319679 / 2 ^ 50),
          prep_padX = js_round ((640 - real_of_int (js_round 640)) / 2),
          prep_padY = js_round ((640 - real_of_int (js_round (8444249301319679 / 2 ^ 50))) / 2)\<rparr>"
    by (rule preprocess_eval[OF _ _ _ _ s c d]) simp_all
  moreover have "js_round 640 = 640" "js_round (8444249301319679 / 2 ^ 50) = 7"
    by (simp_all add: js_round_def)
  ultimately show ?thesis by (simp add: js_round_def)
qed

lemma prep_800_600:
  "preprocess \<lparr>img_width = 800, img_height = 600\<rparr> =
     Some \<lparr>prep_scale = 7205759403792794 / 2 ^ 53, prep_newW = 640, prep_newH = 480,
           prep_padX = 0, prep_padY = 80\<rparr>"
proof -
  have a: "fl (640 / real (800 :: nat)) = 7205759403792794 / 2 ^ 53"
    by (subst fl_eval[where k = 53]) (simp_all add: round_even_def Let_def)
  have b: "fl (640 / real (600 :: nat)) = 4803839602528529 / 2 ^ 52"
    by (subst fl_eval[where k = 52]) (simp_all add: round_even_def Let_def)
  have s: "min (fl (640 / real (800 :: nat))) (fl (640 / real (600 :: nat)))
      = 7205759403792794 / 2 ^ 53"
    unfolding a b by simp
  have c: "fl (real (800 :: nat) * (7205759403792794 / 2 ^ 53)) = 640"
    by (subst fl_eval[where k = 43]) (simp_all add: round_even_def Let_def)
  have d: "fl (real (600 :: nat) * (7205759403792794 / 2 ^ 53)) = 480"
    by (subst fl_eval[where k = 44]) (simp_all add: round_even_def Let_def)
  have "preprocess \<lparr>img_width = 800, img_height = 600\<rparr> =
    Some \<lparr>prep_scale = 7205759403792794 / 2 ^ 53, prep_newW = js_round 640,
          prep_newH = js_round 480,
          prep_padX = js_round ((640 - real_of_int (js_round 640)) / 2),
          prep_padY = js_round ((640 - real_of_int (js_round 480)) / 2)\<rparr>"
    by (rule preprocess_eval[OF _ _ _ _ s c d]) simp_all
  then show ?thesis by (simp add: js_round_def)
qed

lemma spec_9984_117:
  "letterbox_spec 640 9984 117 =
     \<lparr>prep_scale = 5 / 78, prep_newW = 640, prep_newH = 8, prep_padX = 0, prep_padY = 316\<rparr>"
  by (simp add: letterbox_spec_def Let_def round_def)

lemma spec_800_600:
  "letterbox_spec 640 800 600 =
     \<lparr>prep_scale = 4 / 5, prep_newW = 640, prep_newH = 480, prep_padX = 0, prep_padY = 80\<rparr>"
  by (simp add: letterbox_spec_def Let_def round_def)

lemma clear_800_600: "clear_of_ties (800 * (4 / 5))" "clear_of_ties (600 * (4 / 5))"
  by (simp_all add: clear_of_ties_def frac_def)

text \<open>
  Claim C9, as the script has it. For an image with positive width and height (below
  \<open>2^32\<close>) \<open>preprocess\<close> computes the formulas of the specification's Letterbox
  Transform with \<open>S = INPUT_SIZE\<close> in double arithmetic: its scale is within a relative
  \<open>2^-53\<close> of \<open>min(S/srcW, S/srcH)\<close>, the padding is the rounded half of what the
  scaled size leaves, and the scaled width (height) and its padding are those of the exact
  formulas whenever the exact product \<open>srcW * scale\<close> (\<open>srcH * scale\<close>) keeps a distance
  of \<open>2^-42\<close> from every half-integer. For a 1920 by 1080 image the scale is the double
  nearest to \<open>1/3\<close> (within 0.001 of 0.333), the scaled size 640 by 360, and the padding 0
  and 140.
\<close>

theorem preprocess_letterbox:
  "(0 < img_width img \<and> img_width img < 2 ^ 32 \<and>
    0 < img_height img \<and> img_height img < 2 ^ 32 \<longrightarrow>
      (let L = letterbox_spec (real INPUT_SIZE) (real (img_width img)) (real (img_height img))
       in \<exists>p. preprocess img = Some p \<and>
            \<bar>prep_scale p - prep_scale L\<bar> \<le> prep_scale L / 2 ^ 53 \<and>
            prep_padX p = round ((real INPUT_SIZE - real_of_int (prep_newW p)) / 2) \<and>
            prep_padY p = round ((real INPUT_SIZE - real_of_int (prep_newH p)) / 2) \<and>
            (clear_of_ties (real (img_width img) * prep_scale L) \<longrightarrow>
               prep_newW p = prep_newW L \<and> prep_padX p = prep_padX L) \<and>
            (clear_of_ties (real (img_height img) * prep_scale L) \<longrightarrow>
               prep_newH p = prep_newH L \<and> prep_padY p = prep_padY L))) \<and>
   preprocess \<lparr>img_width = 1920, img_height = 1080\<rparr> =
     Some \<lparr>prep_scale = 6004799503160661 / 2 ^ 54, prep_newW = 640, prep_newH = 360,
           prep_padX = 0, prep_padY = 140\<rparr> \<and>
   \<bar>(6004799503160661 / 2 ^ 54 :: real) - 333 / 1000\<bar> < 1 / 1000"
proof (intro conjI impI)
  assume h: "0 < img_width img \<and> img_width img < 2 ^ 32 \<and>
    0 < img_height img \<and> img_height img < 2 ^ 32"
  define w where "w = real (img_width img)"
  define h' where "h' = real (img_height img)"
  define q where "q = min (640 / w) (640 / h')"
  define s where "s = min (fl (640 / w)) (fl (640 / h'))"
  have wpos: "0 < w" and hpos: "0 < h'" using h by (simp_all add: w_def h'_def)
  have L: "letterbox_spec (real INPUT_SIZE) (real (img_width img)) (real (img_height img)) =
      \<lparr>prep_scale = q, prep_newW = round (w * q), prep_newH = round (h' * q),
       prep_padX = round ((640 - real_of_int (round (w * q))) / 2),
       prep_padY = round ((640 - real_of_int (round (h' * q))) / 2)\<rparr>"
    by (simp add: letterbox_spec_def Let_def INPUT_SIZE_def q_def w_def h'_def)
  have P: "preprocess img =
      Some \<lparr>prep_scale = s, prep_newW = js_round (fl (w * s)), prep_newH = js_round (fl (h' * s)),
          prep_padX = js_round ((640 - real_of_int (js_round (fl (w * s)))) / 2),
          prep_padY = js_round ((640 - real_of_int (js_round (fl (h' * s)))) / 2)\<rparr>"
    using h by (intro preprocess_eval[where W = "img_width img" and H = "img_height img"])
      (simp_all add: s_def w_def h'_def)
  have serr: "\<bar>s - q\<bar> \<le> q / 2 ^ 53"
    unfolding s_def q_def using wpos hpos by (intro scale_err) simp_all
  have qpos: "0 < q" and wq: "w * q \<le> 640" and hq: "h' * q \<le> 640"
    unfolding q_def using fit_le[OF wpos hpos] by simp_all
  have werr: "\<bar>fl (w * s) - w * q\<bar> < 1 / 2 ^ 42"
    by (rule prod_err[OF wpos qpos serr wq])
  have herr: "\<bar>fl (h' * s) - h' * q\<bar> < 1 / 2 ^ 42"
    by (rule prod_err[OF hpos qpos serr hq])
  have nw: "clear_of_ties (w * q) \<Longrightarrow> js_round (fl (w * s)) = round (w * q)"
    by (rule round_stable[OF werr])
  have nh: "clear_of_ties (h' * q) \<Longrightarrow> js_round (fl (h' * s)) = round (h' * q)"
    by (rule round_stable[OF herr])
  show "let L = letterbox_spec (real INPUT_SIZE) (real (img_width img)) (real (img_height img))
       in \<exists>p. preprocess img = Some p \<and>
            \<bar>prep_scale p - prep_scale L\<bar> \<le> prep_scale L / 2 ^ 53 \<and>
            prep_padX p = round ((real INPUT_SIZE - real_of_int (prep_newW p)) / 2) \<and>
            prep_padY p = round ((real INPUT_SIZE - real_of_int (prep_newH p)) / 2) \<and>
            (clear_of_ties (real (img_width img) * prep_scale L) \<longrightarrow>
               prep_newW p = prep_newW L \<and> prep_padX p = prep_padX L) \<and>
            (clear_of_ties (real (img_height img) * prep_scale L) \<longrightarrow>
               prep_newH p = prep_newH L \<and> prep_padY p = prep_padY L)"
    unfolding L Let_def P
    using serr nw nh
    by (simp add: w_def[symmetric] h'_def[symmetric] INPUT_SIZE_def js_round_def round_def)
next
  show "preprocess \<lparr>img_width = 1920, img_height = 1080\<rparr> =
     Some \<lparr>prep_scale = 6004799503160661 / 2 ^ 54, prep_newW = 640, prep_newH = 360,
           prep_padX = 0, prep_padY = 140\<rparr>"
    by (rule prep_1920_1080)
next
  show "\<bar>(6004799503160661 / 2 ^ 54 :: real) - 333 / 1000\<bar> < 1 / 1000" by simp
qed

theorem preprocess_letterbox_witness:
  "preprocess \<lparr>img_width = 800, img_height = 600\<rparr> =
     Some \<lparr>prep_scale = 7205759403792794 / 2 ^ 53, prep_newW = 640, prep_newH = 480,
           prep_padX = 0, prep_padY = 80\<rparr> \<and>
   letterbox_spec 640 800 600 =
     \<lparr>prep_scale = 4 / 5, prep_newW = 640, prep_newH = 480, prep_padX = 0, prep_padY = 80\<rparr> \<and>
   clear_of_ties (800 * (4 / 5)) \<and> clear_of_ties (600 * (4 / 5)) \<and>
   \<bar>(7205759403792794 / 2 ^ 53 :: real) - 4 / 5\<bar> \<le> (4 / 5) / 2 ^ 53"
  using preprocess_letterbox [of "\<lparr>img_width = 800, img_height = 600\<rparr>"]
    prep_800_600 spec_800_600 clear_800_600
  by (simp add: INPUT_SIZE_def)

text \<open>
  A 9984 by 117 image: the exact product \<open>117 * (640 / 9984)\<close> is \<open>7.5\<close>, the product
  with the rounded scale lies just below it, and the script's height and padding are 7 and
  317 where the exact formulas give 8 and 316.
\<close>

theorem preprocess_near_tie_counterexample:
  "preprocess \<lparr>img_width = 9984, img_height = 117\<rparr> =
     Some \<lparr>prep_scale = 4619076540892816 / 2 ^ 56, prep_newW = 640, prep_newH = 7,
           prep_padX = 0, prep_padY = 317\<rparr> \<and>
   letterbox_spec 640 9984 117 =
     \<lparr>prep_scale = 5 / 78, prep_newW = 640, prep_newH = 8, prep_padX = 0, prep_padY = 316\<rparr>"
  using prep_9984_117 spec_9984_117 by simp

subsection \<open>Properties of the decoder\<close>

lemma scan_class_unfold:
  "scan_class dat numPreds i c (bs, bc) =
    (case class_score dat numPreds i c of
       None \<Rightarrow> (bs, bc)
     | Some s \<Rightarrow> if bs < s then (s, int c) else (bs, bc))"
  by (simp add: scan_class_def class_score_def split: option.splits)

lemma fold_scan_inv:
  "fold (scan_class dat numPreds i) [0 ..< n] (0, - 1) = (bs, bc) \<Longrightarrow>
   (bc = - 1 \<and> bs = 0 \<and> (\<forall>c<n. \<forall>s. class_score dat numPreds i c = Some s \<longrightarrow> s \<le> 0)) \<or>
   (0 \<le> bc \<and> nat bc < n \<and> 0 < bs \<and> class_score dat numPreds i (nat bc) = Some bs \<and>
    (\<forall>c<n. \<forall>s. class_score dat numPreds i c = Some s \<longrightarrow> s \<le> bs) \<and>
    (\<forall>c<nat bc. \<forall>s. class_score dat numPreds i c = Some s \<longrightarrow> s < bs))"
proof (induction n arbitrary: bs bc)
  case 0
  then show ?case by simp
next
  case (Suc n)
  obtain bs0 bc0 where prev: "fold (scan_class dat numPreds i) [0 ..< n] (0, - 1) = (bs0, bc0)"
    by (cases "fold (scan_class dat numPreds i) [0 ..< n] (0, - 1)") auto
  have step: "scan_class dat numPreds i n (bs0, bc0) = (bs, bc)"
    using Suc.prems prev by simp
  note IH = Suc.IH[OF prev]
  have nonneg: "0 \<le> bs0" using IH by linarith
  have upper: "\<forall>c<n. \<forall>s. class_score dat numPreds i c = Some s \<longrightarrow> s \<le> bs0"
    using IH by blast
  show ?case
  proof (cases "\<exists>s. class_score dat numPreds i n = Some s \<and> bs0 < s")
    case True
    then obtain s where s: "class_score dat numPreds i n = Some s" "bs0 < s" by blast
    then have eq: "bs = s" "bc = int n" using step by (simp_all add: scan_class_unfold)
    have "\<forall>c<n. \<forall>s'. class_score dat numPreds i c = Some s' \<longrightarrow> s' < s"
      using upper s(2) by fastforce
    then have "0 \<le> bc \<and> nat bc < Suc n \<and> 0 < bs \<and> class_score dat numPreds i (nat bc) = Some bs \<and>
      (\<forall>c<Suc n. \<forall>s. class_score dat numPreds i c = Some s \<longrightarrow> s \<le> bs) \<and>
      (\<forall>c<nat bc. \<forall>s. class_score dat numPreds i c = Some s \<longrightarrow> s < bs)"
      unfolding eq using s nonneg by (simp add: All_less_Suc less_imp_le)
    then show ?thesis by (rule disjI2)
  next
    case False
    then have eq: "bs = bs0" "bc = bc0"
      using step by (auto simp: scan_class_unfold split: option.splits)
    have last: "\<forall>s. class_score dat numPreds i n = Some s \<longrightarrow> s \<le> bs0"
      using False by auto
    from IH show ?thesis
    proof (elim disjE)
      assume h: "bc0 = - 1 \<and> bs0 = 0 \<and>
        (\<forall>c<n. \<forall>s. class_score dat numPreds i c = Some s \<longrightarrow> s \<le> 0)"
      then have "bc = - 1 \<and> bs = 0 \<and>
        (\<forall>c<Suc n. \<forall>s. class_score dat numPreds i c = Some s \<longrightarrow> s \<le> 0)"
        unfolding eq using last by (simp add: All_less_Suc)
      then show ?thesis by (rule disjI1)
    next
      assume h: "0 \<le> bc0 \<and> nat bc0 < n \<and> 0 < bs0 \<and>
        class_score dat numPreds i (nat bc0) = Some bs0 \<and>
        (\<forall>c<n. \<forall>s. class_score dat numPreds i c = Some s \<longrightarrow> s \<le> bs0) \<and>
        (\<forall>c<nat bc0. \<forall>s. class_score dat numPreds i c = Some s \<longrightarrow> s < bs0)"
      then have "0 \<le> bc \<and> nat bc < Suc n \<and> 0 < bs \<and>
        class_score dat numPreds i (nat bc) = Some bs \<and>
        (\<forall>c<Suc n. \<forall>s. class_score dat numPreds i c = Some s \<longrightarrow> s \<le> bs) \<and>
        (\<forall>c<nat bc. \<forall>s. class_score dat numPreds i c = Some s \<longrightarrow> s < bs)"
        unfolding eq using last by (simp add: All_less_Suc)
      then show ?thesis by (rule disjI2)
    qed
  qed
qed

lemma best_class_inv:
  "best_class known dat numPreds numClasses i = (bs, bc) \<Longrightarrow>
   (bc = - 1 \<and> bs = 0 \<and>
    (\<forall>c<scanned known numClasses. \<forall>s. class_score dat numPreds i c = Some s \<longrightarrow> s \<le> 0)) \<or>
   (0 \<le> bc \<and> nat bc < scanned known numClasses \<and> 0 < bs \<and>
    class_score dat numPreds i (nat bc) = Some bs \<and>
    (\<forall>c<scanned known numClasses. \<forall>s. class_score dat numPreds i c = Some s \<longrightarrow> s \<le> bs) \<and>
    (\<forall>c<nat bc. \<forall>s. class_score dat numPreds i c = Some s \<longrightarrow> s < bs))"
  unfolding best_class_def scanned_def by (rule fold_scan_inv)

lemma for_preds_skip:
  "(\<And>i. i \<in> set is \<Longrightarrow> body i ds = Inr ds) \<Longrightarrow> for_preds body is ds = Inr ds"
  by (induction "is") auto

lemma for_preds_invariant:
  "for_preds body is ds0 = Inr ds \<Longrightarrow> Q ds0 \<Longrightarrow>
   \<forall>i\<in>set is. \<forall>a b. Q a \<longrightarrow> body i a = Inr b \<longrightarrow> Q b \<Longrightarrow> Q ds"
proof (induction "is" arbitrary: ds0)
  case Nil
  then show ?case by simp
next
  case (Cons i "is")
  show ?case
  proof (cases "body i ds0")
    case (Inl e)
    then show ?thesis using Cons.prems(1) by simp
  next
    case (Inr b)
    then have run: "for_preds body is b = Inr ds" using Cons.prems(1) by simp
    have "\<forall>a b. Q a \<longrightarrow> body i a = Inr b \<longrightarrow> Q b"
      using Cons.prems(3) by (rule bspec) simp
    then have "Q b" using Cons.prems(2) Inr by blast
    moreover have "\<forall>j\<in>set is. \<forall>a b. Q a \<longrightarrow> body j a = Inr b \<longrightarrow> Q b"
      using Cons.prems(3) by (meson list.set_intros(2))
    ultimately show ?thesis by (rule Cons.IH[OF run])
  qed
qed

lemma decode_pred_skip:
  "fst (best_class known dat numPreds numClasses i) < T \<Longrightarrow>
   decode_pred T known dat numPreds numClasses imgWidth imgHeight scale padX padY i ds = Inr ds"
  by (simp add: decode_pred_def Let_def)

lemma decode_pred_emit:
  assumes "\<not> fst (best_class known dat numPreds numClasses i) < T"
    and "data_at dat i = Some cx" "data_at dat (i + numPreds) = Some cy"
    and "data_at dat (i + 2 * numPreds) = Some w" "data_at dat (i + 3 * numPreds) = Some h"
    and "scale \<noteq> 0"
  shows "decode_pred T known dat numPreds numClasses imgWidth imgHeight scale padX padY i ds =
    Inr (ds @
      [\<lparr>x1 = max 0 (min imgWidth ((cx - w / 2 - padX) / scale)),
        y1 = max 0 (min imgHeight ((cy - h / 2 - padY) / scale)),
        x2 = max 0 (min imgWidth ((cx + w / 2 - padX) / scale)),
        y2 = max 0 (min imgHeight ((cy + h / 2 - padY) / scale)),
        score = fst (best_class known dat numPreds numClasses i),
        classId = snd (best_class known dat numPreds numClasses i)\<rparr>])"
  using assms by (simp add: decode_pred_def Let_def)

lemma decode_pred_Inr:
  assumes "decode_pred T known dat numPreds numClasses imgWidth imgHeight scale padX padY i ds
            = Inr ds'"
  shows "(fst (best_class known dat numPreds numClasses i) < T \<and> ds' = ds) \<or>
    (\<not> fst (best_class known dat numPreds numClasses i) < T \<and> scale \<noteq> 0 \<and>
     (\<exists>cx cy w h.
        data_at dat i = Some cx \<and> data_at dat (i + numPreds) = Some cy \<and>
        data_at dat (i + 2 * numPreds) = Some w \<and> data_at dat (i + 3 * numPreds) = Some h \<and>
        ds' = ds @
          [\<lparr>x1 = max 0 (min imgWidth ((cx - w / 2 - padX) / scale)),
            y1 = max 0 (min imgHeight ((cy - h / 2 - padY) / scale)),
            x2 = max 0 (min imgWidth ((cx + w / 2 - padX) / scale)),
            y2 = max 0 (min imgHeight ((cy + h / 2 - padY) / scale)),
            score = fst (best_class known dat numPreds numClasses i),
            classId = snd (best_class known dat numPreds numClasses i)\<rparr>]))"
proof (cases "fst (best_class known dat numPreds numClasses i) < T")
  case True
  then show ?thesis using assms by (simp add: decode_pred_skip)
next
  case False
  from assms False obtain cx cy w h where
    reads: "data_at dat i = Some cx" "data_at dat (i + numPreds) = Some cy"
      "data_at dat (i + 2 * numPreds) = Some w" "data_at dat (i + 3 * numPreds) = Some h"
    and nz: "scale \<noteq> 0"
    by (simp add: decode_pred_def Let_def split: if_splits option.splits)
  show ?thesis
    using assms False nz reads decode_pred_emit[OF False reads nz, of imgWidth imgHeight padX padY ds]
    by simp
qed

lemma decoded_all:
  assumes run: "for_preds (decode_pred T known dat numPreds numClasses imgWidth imgHeight
                  scale padX padY) is ds0 = Inr ds"
    and init: "\<forall>d\<in>set ds0. R d"
    and emit: "\<And>i cx cy w h. i \<in> set is \<Longrightarrow>
        \<not> fst (best_class known dat numPreds numClasses i) < T \<Longrightarrow> scale \<noteq> 0 \<Longrightarrow>
        data_at dat i = Some cx \<Longrightarrow> data_at dat (i + numPreds) = Some cy \<Longrightarrow>
        data_at dat (i + 2 * numPreds) = Some w \<Longrightarrow> data_at dat (i + 3 * numPreds) = Some h \<Longrightarrow>
        R \<lparr>x1 = max 0 (min imgWidth ((cx - w / 2 - padX) / scale)),
           y1 = max 0 (min imgHeight ((cy - h / 2 - padY) / scale)),
           x2 = max 0 (min imgWidth ((cx + w / 2 - padX) / scale)),
           y2 = max 0 (min imgHeight ((cy + h / 2 - padY) / scale)),
           score = fst (best_class known dat numPreds numClasses i),
           classId = snd (best_class known dat numPreds numClasses i)\<rparr>"
  shows "\<forall>d\<in>set ds. R d"
proof (rule for_preds_invariant[OF run, where Q = "\<lambda>l. \<forall>d\<in>set l. R d"])
  show "\<forall>d\<in>set ds0. R d" by (rule init)
next
  show "\<forall>i\<in>set is. \<forall>a b. (\<forall>d\<in>set a. R d) \<longrightarrow>
      decode_pred T known dat numPreds numClasses imgWidth imgHeight scale padX padY i a = Inr b \<longrightarrow>
      (\<forall>d\<in>set b. R d)"
  proof (intro ballI allI impI)
    fix i a b d
    assume i: "i \<in> set is" and a: "\<forall>d\<in>set a. R d"
      and step: "decode_pred T known dat numPreds numClasses imgWidth imgHeight scale padX padY i a
                  = Inr b"
      and d: "d \<in> set b"
    from decode_pred_Inr[OF step] show "R d"
    proof (elim disjE conjE exE)
      assume "b = a"
      then show ?thesis using a d by simp
    next
      fix cx cy w h
      assume hs: "\<not> fst (best_class known dat numPreds numClasses i) < T" "scale \<noteq> 0"
        "data_at dat i = Some cx" "data_at dat (i + numPreds) = Some cy"
        "data_at dat (i + 2 * numPreds) = Some w" "data_at dat (i + 3 * numPreds) = Some h"
        and b: "b = a @
          [\<lparr>x1 = max 0 (min imgWidth ((cx - w / 2 - padX) / scale)),
            y1 = max 0 (min imgHeight ((cy - h / 2 - padY) / scale)),
            x2 = max 0 (min imgWidth ((cx + w / 2 - padX) / scale)),
            y2 = max 0 (min imgHeight ((cy + h / 2 - padY) / scale)),
            score = fst (best_class known dat numPreds numClasses i),
            classId = snd (best_class known dat numPreds numClasses i)\<rparr>]"
      have new: "R \<lparr>x1 = max 0 (min imgWidth ((cx - w / 2 - padX) / scale)),
            y1 = max 0 (min imgHeight ((cy - h / 2 - padY) / scale)),
            x2 = max 0 (min imgWidth ((cx + w / 2 - padX) / scale)),
            y2 = max 0 (min imgHeight ((cy + h / 2 - padY) / scale)),
            score = fst (best_class known dat numPreds numClasses i),
            classId = snd (best_class known dat numPreds numClasses i)\<rparr>"
        by (rule emit[OF i hs])
      from d b have "d \<in> set a \<or> d = \<lparr>x1 = max 0 (min imgWidth ((cx - w / 2 - padX) / scale)),
            y1 = max 0 (min imgHeight ((cy - h / 2 - padY) / scale)),
            x2 = max 0 (min imgWidth ((cx + w / 2 - padX) / scale)),
            y2 = max 0 (min imgHeight ((cy + h / 2 - padY) / scale)),
            score = fst (best_class known dat numPreds numClasses i),
            classId = snd (best_class known dat numPreds numClasses i)\<rparr>"
        by auto
      then show ?thesis using a new by blast
    qed
  qed
qed

lemma set_nms: "set (nms D t) \<subseteq> set D"
proof -
  have "mset (nms D t) \<subseteq># mset (js_sort (\<lambda>a b. score b - score a) D)"
    unfolding nms_def by (rule mset_nms_loop)
  then have "mset (nms D t) \<subseteq># mset D" by (simp add: mset_js_sort)
  then show ?thesis using set_mset_mono by fastforce
qed

lemma decodeYOLO_with_Inr:
  assumes "decodeYOLO_with T tau known output imgWidth imgHeight scale padX padY = Inr dets"
  shows "(length (dims output) \<noteq> 3 \<and> dets = []) \<or>
    (\<exists>batch numAttrs numPreds ds.
       dims output = [batch, numAttrs, numPreds] \<and>
       for_preds (decode_pred T known (data output) numPreds (int numAttrs - 4)
                    imgWidth imgHeight scale padX padY) [0 ..< numPreds] [] = Inr ds \<and>
       dets = nms ds tau)"
proof (cases "\<exists>batch numAttrs numPreds. dims output = [batch, numAttrs, numPreds]")
  case True
  then obtain batch numAttrs numPreds where d: "dims output = [batch, numAttrs, numPreds]"
    by blast
  then show ?thesis using assms
    by (simp add: decodeYOLO_with_def Let_def split: sum.splits)
next
  case False
  then have len: "length (dims output) \<noteq> 3"
    by (auto simp: numeral_3_eq_3 length_Suc_conv)
  have "decodeYOLO_with T tau known output imgWidth imgHeight scale padX padY = Inr []"
    using False by (auto simp: decodeYOLO_with_def split: list.splits)
  then show ?thesis using assms len by simp
qed

lemma decodeYOLO_with_all:
  assumes run: "decodeYOLO_with T tau known output imgWidth imgHeight scale padX padY = Inr dets"
    and emit: "\<And>batch numAttrs numPreds i cx cy w h.
        dims output = [batch, numAttrs, numPreds] \<Longrightarrow> i < numPreds \<Longrightarrow>
        \<not> fst (best_class known (data output) numPreds (int numAttrs - 4) i) < T \<Longrightarrow>
        scale \<noteq> 0 \<Longrightarrow>
        data_at (data output) i = Some cx \<Longrightarrow> data_at (data output) (i + numPreds) = Some cy \<Longrightarrow>
        data_at (data output) (i + 2 * numPreds) = Some w \<Longrightarrow>
        data_at (data output) (i + 3 * numPreds) = Some h \<Longrightarrow>
        R \<lparr>x1 = max 0 (min imgWidth ((cx - w / 2 - padX) / scale)),
           y1 = max 0 (min imgHeight ((cy - h / 2 - padY) / scale)),
           x2 = max 0 (min imgWidth ((cx + w / 2 - padX) / scale)),
           y2 = max 0 (min imgHeight ((cy + h / 2 - padY) / scale)),
           score = fst (best_class known (data output) numPreds (int numAttrs - 4) i),
           classId = snd (best_class known (data output) numPreds (int numAttrs - 4) i)\<rparr>"
  shows "\<forall>d\<in>set dets. R d"
  using decodeYOLO_with_Inr[OF run]
proof (elim disjE conjE exE)
  assume "dets = []"
  then show ?thesis by simp
next
  fix batch numAttrs numPreds ds
  assume d: "dims output = [batch, numAttrs, numPreds]"
    and loop: "for_preds (decode_pred T known (data output) numPreds (int numAttrs - 4)
                    imgWidth imgHeight scale padX padY) [0 ..< numPreds] [] = Inr ds"
    and dets: "dets = nms ds tau"
  have "\<forall>d\<in>set ds. R d"
  proof (rule decoded_all[OF loop])
    show "\<forall>d\<in>set []. R d" by simp
  next
    fix i cx cy w h
    assume "i \<in> set [0 ..< numPreds]"
    then have "i < numPreds" by simp
    then show "\<not> fst (best_class known (data output) numPreds (int numAttrs - 4) i) < T \<Longrightarrow>
        scale \<noteq> 0 \<Longrightarrow>
        data_at (data output) i = Some cx \<Longrightarrow> data_at (data output) (i + numPreds) = Some cy \<Longrightarrow>
        data_at (data output) (i + 2 * numPreds) = Some w \<Longrightarrow>
        data_at (data output) (i + 3 * numPreds) = Some h \<Longrightarrow>
        R \<lparr>x1 = max 0 (min imgWidth ((cx - w / 2 - padX) / scale)),
           y1 = max 0 (min imgHeight ((cy - h / 2 - padY) / scale)),
           x2 = max 0 (min imgWidth ((cx + w / 2 - padX) / scale)),
           y2 = max 0 (min imgHeight ((cy + h / 2 - padY) / scale)),
           score = fst (best_class known (data output) numPreds (int numAttrs - 4) i),
           classId = snd (best_class known (data output) numPreds (int numAttrs - 4) i)\<rparr>"
      by (rule emit[OF d])
  qed
  then show ?thesis using dets set_nms[of ds tau] by blast
qed

lemma data_at_Some_less: "data_at dat k = Some v \<Longrightarrow> j \<le> k \<Longrightarrow> \<exists>u. data_at dat j = Some u"
  by (simp add: data_at_def split: if_splits)

lemma best_class_pos:
  assumes "0 < fst (best_class known dat numPreds numClasses i)"
  shows "0 \<le> snd (best_class known dat numPreds numClasses i) \<and>
    nat (snd (best_class known dat numPreds numClasses i)) < scanned known numClasses \<and>
    class_score dat numPreds i (nat (snd (best_class known dat numPreds numClasses i))) =
      Some (fst (best_class known dat numPreds numClasses i))"
proof -
  obtain bs bc where b: "best_class known dat numPreds numClasses i = (bs, bc)"
    by (cases "best_class known dat numPreds numClasses i") auto
  from best_class_inv[OF b] assms b show ?thesis by auto
qed

lemma best_class_nonneg: "0 \<le> fst (best_class known dat numPreds numClasses i)"
proof -
  obtain bs bc where b: "best_class known dat numPreds numClasses i = (bs, bc)"
    by (cases "best_class known dat numPreds numClasses i") auto
  from best_class_inv[OF b] b show ?thesis by auto
qed

lemma best_class_upper:
  assumes "c < scanned known numClasses" "class_score dat numPreds i c = Some s"
  shows "s \<le> fst (best_class known dat numPreds numClasses i)"
proof -
  obtain bs bc where b: "best_class known dat numPreds numClasses i = (bs, bc)"
    by (cases "best_class known dat numPreds numClasses i") auto
  from best_class_inv[OF b] have "s \<le> bs"
  proof (elim disjE conjE)
    assume "bs = 0" "\<forall>c<scanned known numClasses. \<forall>s. class_score dat numPreds i c = Some s \<longrightarrow> s \<le> 0"
    then show ?thesis using assms by blast
  next
    assume "\<forall>c<scanned known numClasses. \<forall>s. class_score dat numPreds i c = Some s \<longrightarrow> s \<le> bs"
    then show ?thesis using assms by blast
  qed
  then show ?thesis using b by simp
qed

lemma best_class_sentinel:
  assumes "\<forall>c<scanned known numClasses. \<forall>s. class_score dat numPreds i c = Some s \<longrightarrow> s \<le> 0"
  shows "best_class known dat numPreds numClasses i = (0, - 1)"
proof -
  obtain bs bc where b: "best_class known dat numPreds numClasses i = (bs, bc)"
    by (cases "best_class known dat numPreds numClasses i") auto
  from best_class_inv[OF b] have "bs = 0 \<and> bc = - 1"
  proof (elim disjE conjE)
    assume "bc = - 1" "bs = 0"
    then show ?thesis by simp
  next
    assume h: "nat bc < scanned known numClasses" "0 < bs"
      "class_score dat numPreds i (nat bc) = Some bs"
    then have "bs \<le> 0" using assms by blast
    then show ?thesis using h(2) by simp
  qed
  then show ?thesis using b by simp
qed

lemma decode_pred_total:
  assumes "0 < T" "scale \<noteq> 0"
  shows "\<exists>ds'. decode_pred T known dat numPreds numClasses imgWidth imgHeight scale padX padY i ds
           = Inr ds'"
proof (cases "fst (best_class known dat numPreds numClasses i) < T")
  case True
  then show ?thesis by (simp add: decode_pred_skip)
next
  case False
  then have "0 < fst (best_class known dat numPreds numClasses i)" using assms(1) by simp
  from best_class_pos[OF this] obtain v c where
    "data_at dat (i + (4 + c) * numPreds) = Some v"
    by (auto simp: class_score_def)
  then have r: "\<exists>u. data_at dat i = Some u" "\<exists>u. data_at dat (i + numPreds) = Some u"
    "\<exists>u. data_at dat (i + 2 * numPreds) = Some u" "\<exists>u. data_at dat (i + 3 * numPreds) = Some u"
    by (auto intro!: data_at_Some_less)
  then obtain cx cy w h where reads:
    "data_at dat i = Some cx" "data_at dat (i + numPreds) = Some cy"
    "data_at dat (i + 2 * numPreds) = Some w" "data_at dat (i + 3 * numPreds) = Some h"
    by blast
  show ?thesis
    using decode_pred_emit[OF False reads assms(2), of imgWidth imgHeight padX padY ds] by blast
qed

lemma for_preds_total:
  "\<forall>i ds. \<exists>ds'. body i ds = Inr ds' \<Longrightarrow> \<exists>ds'. for_preds body is ds = Inr ds'"
proof (induction "is" arbitrary: ds)
  case Nil
  then show ?case by simp
next
  case (Cons i "is")
  from Cons.prems obtain b where b: "body i ds = Inr b" by blast
  from Cons.IH[OF Cons.prems, of b] show ?case using b by simp
qed

lemma decodeYOLO_with_total:
  assumes "0 < T" "scale \<noteq> 0"
  shows "\<exists>dets. decodeYOLO_with T tau known output imgWidth imgHeight scale padX padY = Inr dets"
proof (cases "\<exists>batch numAttrs numPreds. dims output = [batch, numAttrs, numPreds]")
  case True
  then obtain batch numAttrs numPreds where d: "dims output = [batch, numAttrs, numPreds]"
    by blast
  have "\<exists>ds'. for_preds (decode_pred T known (data output) numPreds (int numAttrs - 4)
                    imgWidth imgHeight scale padX padY) [0 ..< numPreds] [] = Inr ds'"
    by (rule for_preds_total) (simp add: decode_pred_total[OF assms])
  then show ?thesis using d by (auto simp: decodeYOLO_with_def Let_def)
next
  case False
  then show ?thesis by (auto simp: decodeYOLO_with_def split: list.splits)
qed

text \<open>A tensor with two predictions and two class channels, evaluated.\<close>

lemma sample_run:
  "decodeYOLO_with (4 / 10) (1 / 2) 5
     \<lparr>data = [100, 200, 100, 200, 20, 40, 20, 40, 9 / 10, 1 / 10, 2 / 10, 3 / 10],
      dims = [1, 6, 2]\<rparr> 640 640 1 0 0
   = Inr [\<lparr>x1 = 90, y1 = 90, x2 = 110, y2 = 110, score = 9 / 10, classId = 0\<rparr>]"
  by (simp add: decodeYOLO_with_def decode_pred_def best_class_def scan_class_def upt_rec
        data_at_def nth_Cons' nms_def js_sort_def Let_def)

lemma CLASSES_length: "length CLASSES = 5"
  by (simp add: CLASSES_def)

lemma sample_run_shipped:
  "decodeYOLO
     \<lparr>data = [100, 200, 100, 200, 20, 40, 20, 40, 9 / 10, 1 / 10, 2 / 10, 3 / 10],
      dims = [1, 6, 2]\<rparr> 640 640 1 0 0
   = Inr [\<lparr>x1 = 90, y1 = 90, x2 = 110, y2 = 110, score = 9 / 10, classId = 0\<rparr>]"
  unfolding decodeYOLO_def CLASSES_length CONF_THRESHOLD_def NMS_THRESHOLD_def
  using sample_run by simp

text \<open>The two outcomes that are not a list of detections.\<close>

lemma sample_errors:
  "decode_pred 0 5 [] 1 1 640 640 1 0 0 0 [] = Inl TypeError \<and>
   decode_pred (4 / 10) 5 [320, 10, 100, 40, 9 / 10] 1 1 1920 1080 0 0 140 0 []
     = Inl NonFinite"
  by (simp add: decode_pred_def best_class_def scan_class_def upt_rec
        data_at_def nth_Cons' Let_def)

lemma sample_pred1:
  "decode_pred (4 / 10) 5 [100, 200, 100, 200, 20, 40, 20, 40, 9 / 10, 1 / 10, 2 / 10, 3 / 10]
      2 2 640 640 1 0 0 1 [] = Inr [] \<and>
   best_class 5 [100, 200, 100, 200, 20, 40, 20, 40, 9 / 10, 1 / 10, 2 / 10, 3 / 10] 2 2 1
     = (3 / 10, 1)"
  by (simp add: decode_pred_def best_class_def scan_class_def upt_rec
        data_at_def nth_Cons' Let_def)

lemma clamp_code_spec: "0 \<le> hi \<Longrightarrow> max 0 (min hi v) = clamp_spec 0 hi v"
  by (simp add: clamp_spec_def max_def min_def)

lemma clamp_range: "0 \<le> hi \<Longrightarrow> 0 \<le> max 0 (min hi (v :: real)) \<and> max 0 (min hi v) \<le> hi"
  by (simp add: max_def min_def)

lemma clamp_mono: "(u :: real) \<le> v \<Longrightarrow> max 0 (min hi u) \<le> max 0 (min hi v)"
  by (simp add: max_def min_def)

lemma sample_sizes:
  "sizes_nonneg \<lparr>data = [100, 200, 100, 200, 20, 40, 20, 40, 9 / 10, 1 / 10, 2 / 10, 3 / 10],
      dims = [1, 6, 2]\<rparr>"
  unfolding sizes_nonneg_def by (simp add: data_at_def nth_Cons' upt_conv_Cons)

lemma scanned_none: "numAttrs \<le> 4 \<Longrightarrow> scanned known (int numAttrs - 4) = 0"
  by (simp add: scanned_def)

lemma decodeYOLO_with_no_classes:
  assumes "dims out = [batch, numAttrs, numPreds]" "numAttrs \<le> 4" "0 < T"
  shows "decodeYOLO_with T tau known out imgWidth imgHeight scale padX padY = Inr []"
proof -
  have best: "best_class known (data out) numPreds (int numAttrs - 4) i = (0, - 1)" for i
    by (rule best_class_sentinel) (simp add: scanned_none[OF assms(2)])
  have "for_preds (decode_pred T known (data out) numPreds (int numAttrs - 4)
                    imgWidth imgHeight scale padX padY) [0 ..< numPreds] [] = Inr []"
    by (rule for_preds_skip) (simp add: decode_pred_skip best assms(3))
  then show ?thesis using assms(1) by (simp add: decodeYOLO_with_def nms_def js_sort_def)
qed

lemma decodeYOLO_with_bad_rank:
  assumes "length (dims out) \<noteq> 3"
  shows "decodeYOLO_with T tau known out imgWidth imgHeight scale padX padY = Inr []"
  using assms by (auto simp: decodeYOLO_with_def split: list.splits)

lemma scan_class_cong:
  "class_score dat numPreds i c = class_score dat' numPreds i c \<Longrightarrow>
   scan_class dat numPreds i c best = scan_class dat' numPreds i c best"
  by (cases best) (simp add: scan_class_unfold)

lemma best_class_cong:
  assumes "\<forall>c<scanned known numClasses. class_score dat numPreds i c = class_score dat' numPreds i c"
  shows "best_class known dat numPreds numClasses i = best_class known dat' numPreds numClasses i"
proof -
  have "\<And>c. c \<in> set [0 ..< scanned known numClasses] \<Longrightarrow>
      scan_class dat numPreds i c = scan_class dat' numPreds i c"
    using assms by (auto intro: scan_class_cong)
  then have "fold (scan_class dat numPreds i) [0 ..< scanned known numClasses] (0, - 1) =
      fold (scan_class dat' numPreds i) [0 ..< scanned known numClasses] (0, - 1)"
    by (intro fold_cong) simp_all
  then show ?thesis by (simp add: best_class_def scanned_def)
qed

lemma tie_scores:
  "class_score [10, 10, 4, 4, 3 / 10, 7 / 10, 7 / 10] 1 0 0 = Some (3 / 10) \<and>
   class_score [10, 10, 4, 4, 3 / 10, 7 / 10, 7 / 10] 1 0 1 = Some (7 / 10) \<and>
   class_score [10, 10, 4, 4, 3 / 10, 7 / 10, 7 / 10] 1 0 2 = Some (7 / 10) \<and>
   scanned 5 3 = 3"
  by (simp add: class_score_def data_at_def scanned_def nth_Cons')

subsection \<open>The claims about the decoder\<close>

text \<open>
  Claim C2. A prediction whose tracked maximum score is below the threshold \<open>T\<close> leaves
  the list of detections unchanged; a prediction adds a detection only when that maximum is
  at least \<open>T\<close>, and the detection carries it as its score; for a positive threshold
  (the script's is 0.4) the tracked maximum is below \<open>T\<close> exactly when every scanned class
  score is; every detection returned by the decoder has a score of at least \<open>T\<close>, in
  particular every detection returned by \<open>decodeYOLO\<close> a score of at least
  \<open>CONF_THRESHOLD\<close>; and for a positive threshold and a non-zero scale the decoder does
  return a list.
\<close>

theorem decoder_threshold:
  "(fst (best_class known dat numPreds numClasses i) < T \<longrightarrow>
      decode_pred T known dat numPreds numClasses imgWidth imgHeight scale padX padY i ds
        = Inr ds) \<and>
   (decode_pred T known dat numPreds numClasses imgWidth imgHeight scale padX padY i ds
      = Inr ds' \<longrightarrow>
      ds' = ds \<or>
      (T \<le> fst (best_class known dat numPreds numClasses i) \<and>
       (\<exists>d. ds' = ds @ [d] \<and> score d = fst (best_class known dat numPreds numClasses i)))) \<and>
   (0 < T \<longrightarrow>
      (fst (best_class known dat numPreds numClasses i) < T) =
      (\<forall>c<scanned known numClasses. \<forall>s. class_score dat numPreds i c = Some s \<longrightarrow> s < T)) \<and>
   (decodeYOLO_with T tau known out imgWidth imgHeight scale padX padY = Inr dets \<longrightarrow>
      (\<forall>d\<in>set dets. T \<le> score d)) \<and>
   (0 < T \<and> scale \<noteq> 0 \<longrightarrow>
      (\<exists>r. decodeYOLO_with T tau known out imgWidth imgHeight scale padX padY = Inr r)) \<and>
   (decodeYOLO out imgWidth imgHeight scale padX padY = Inr dets \<longrightarrow>
      (\<forall>d\<in>set dets. CONF_THRESHOLD \<le> score d))"
proof (intro conjI impI)
  assume "fst (best_class known dat numPreds numClasses i) < T"
  then show "decode_pred T known dat numPreds numClasses imgWidth imgHeight scale padX padY i ds
      = Inr ds"
    by (rule decode_pred_skip)
next
  assume "decode_pred T known dat numPreds numClasses imgWidth imgHeight scale padX padY i ds
      = Inr ds'"
  from decode_pred_Inr[OF this]
  show "ds' = ds \<or>
      (T \<le> fst (best_class known dat numPreds numClasses i) \<and>
       (\<exists>d. ds' = ds @ [d] \<and> score d = fst (best_class known dat numPreds numClasses i)))"
    by (elim disjE conjE exE) (simp, simp add: not_less)
next
  assume T: "0 < T"
  show "(fst (best_class known dat numPreds numClasses i) < T) =
      (\<forall>c<scanned known numClasses. \<forall>s. class_score dat numPreds i c = Some s \<longrightarrow> s < T)"
  proof
    assume low: "fst (best_class known dat numPreds numClasses i) < T"
    show "\<forall>c<scanned known numClasses. \<forall>s. class_score dat numPreds i c = Some s \<longrightarrow> s < T"
    proof (intro allI impI)
      fix c s
      assume "c < scanned known numClasses" "class_score dat numPreds i c = Some s"
      then have "s \<le> fst (best_class known dat numPreds numClasses i)"
        by (rule best_class_upper)
      then show "s < T" using low by simp
    qed
  next
    assume all: "\<forall>c<scanned known numClasses. \<forall>s. class_score dat numPreds i c = Some s \<longrightarrow> s < T"
    show "fst (best_class known dat numPreds numClasses i) < T"
    proof (cases "0 < fst (best_class known dat numPreds numClasses i)")
      case True
      from best_class_pos[OF True] all show ?thesis by blast
    next
      case False
      then show ?thesis using T by simp
    qed
  qed
next
  assume run: "decodeYOLO_with T tau known out imgWidth imgHeight scale padX padY = Inr dets"
  show "\<forall>d\<in>set dets. T \<le> score d"
    by (rule decodeYOLO_with_all[OF run]) simp
next
  assume "0 < T \<and> scale \<noteq> 0"
  then show "\<exists>r. decodeYOLO_with T tau known out imgWidth imgHeight scale padX padY = Inr r"
    by (simp add: decodeYOLO_with_total)
next
  assume "decodeYOLO out imgWidth imgHeight scale padX padY = Inr dets"
  then have run: "decodeYOLO_with CONF_THRESHOLD NMS_THRESHOLD (length CLASSES) out
      imgWidth imgHeight scale padX padY = Inr dets"
    by (simp add: decodeYOLO_def)
  show "\<forall>d\<in>set dets. CONF_THRESHOLD \<le> score d"
    by (rule decodeYOLO_with_all[OF run]) simp
qed

theorem decoder_threshold_witness:
  "best_class 5 [100, 200, 100, 200, 20, 40, 20, 40, 9 / 10, 1 / 10, 2 / 10, 3 / 10] 2 2 1
     = (3 / 10, 1) \<and>
   decode_pred (4 / 10) 5 [100, 200, 100, 200, 20, 40, 20, 40, 9 / 10, 1 / 10, 2 / 10, 3 / 10]
      2 2 640 640 1 0 0 1 [] = Inr [] \<and>
   decodeYOLO_with (4 / 10) (1 / 2) 5
     \<lparr>data = [100, 200, 100, 200, 20, 40, 20, 40, 9 / 10, 1 / 10, 2 / 10, 3 / 10],
      dims = [1, 6, 2]\<rparr> 640 640 1 0 0
   = Inr [\<lparr>x1 = 90, y1 = 90, x2 = 110, y2 = 110, score = 9 / 10, classId = 0\<rparr>] \<and>
   decodeYOLO
     \<lparr>data = [100, 200, 100, 200, 20, 40, 20, 40, 9 / 10, 1 / 10, 2 / 10, 3 / 10],
      dims = [1, 6, 2]\<rparr> 640 640 1 0 0
   = Inr [\<lparr>x1 = 90, y1 = 90, x2 = 110, y2 = 110, score = 9 / 10, classId = 0\<rparr>] \<and>
   CONF_THRESHOLD
     \<le> score \<lparr>x1 = 90, y1 = 90, x2 = 110, y2 = 110, score = 9 / 10, classId = 0\<rparr>"
  using decoder_threshold
    [where T = "4 / 10" and tau = "1 / 2" and known = 5
       and dat = "[100, 200, 100, 200, 20, 40, 20, 40, 9 / 10, 1 / 10, 2 / 10, 3 / 10]"
       and numPreds = 2 and numClasses = 2 and i = 1 and ds = "[]" and ds' = "[]"
       and out = "\<lparr>data = [100, 200, 100, 200, 20, 40, 20, 40, 9 / 10, 1 / 10, 2 / 10, 3 / 10],
                       dims = [1, 6, 2]\<rparr>"
       and imgWidth = 640 and imgHeight = 640 and scale = 1 and padX = 0 and padY = 0
       and dets = "[\<lparr>x1 = 90, y1 = 90, x2 = 110, y2 = 110, score = 9 / 10, classId = 0\<rparr>]"]
    sample_run sample_pred1 sample_run_shipped
  by simp

text \<open>
  Claim C10. With a strictly positive threshold every detection returned by the decoder has
  a class index of at least 0 and a positive score, and a prediction whose scanned class
  scores are all at most 0 adds no detection; so it is for \<open>decodeYOLO\<close>, whose
  threshold is 0.4. With a threshold of 0 or less, such a prediction (its geometry
  readable, the scale non-zero) adds a detection of score 0 whose class index is the
  sentinel \<open>-1\<close>.
\<close>

theorem sentinel_class:
  "(0 < T \<and> decodeYOLO_with T tau known out imgWidth imgHeight scale padX padY = Inr dets \<longrightarrow>
      (\<forall>d\<in>set dets. 0 \<le> classId d \<and> 0 < score d)) \<and>
   (0 < T \<and>
    (\<forall>c<scanned known numClasses. \<forall>s. class_score dat numPreds i c = Some s \<longrightarrow> s \<le> 0) \<longrightarrow>
      decode_pred T known dat numPreds numClasses imgWidth imgHeight scale padX padY i ds
        = Inr ds) \<and>
   (T \<le> 0 \<and>
    (\<forall>c<scanned known numClasses. \<forall>s. class_score dat numPreds i c = Some s \<longrightarrow> s \<le> 0) \<and>
    i + 3 * numPreds < length dat \<and> scale \<noteq> 0 \<longrightarrow>
      (\<exists>d. decode_pred T known dat numPreds numClasses imgWidth imgHeight scale padX padY i ds
             = Inr (ds @ [d]) \<and>
           classId d = - 1 \<and> score d = 0)) \<and>
   (decodeYOLO out imgWidth imgHeight scale padX padY = Inr dets \<longrightarrow>
      (\<forall>d\<in>set dets. 0 \<le> classId d \<and> 0 < score d))"
proof -
  have positive: "\<forall>d\<in>set r. 0 \<le> classId d \<and> 0 < score d"
    if run: "decodeYOLO_with T' tau' known' out imgWidth imgHeight scale padX padY = Inr r"
      and T: "0 < T'" for T' tau' known' r
  proof (rule decodeYOLO_with_all[OF run])
    fix batch numAttrs numPreds i cx cy w h
    assume "\<not> fst (best_class known' (data out) numPreds (int numAttrs - 4) i) < T'"
    then have pos: "0 < fst (best_class known' (data out) numPreds (int numAttrs - 4) i)"
      using T by simp
    from best_class_pos[OF pos] pos
    show "0 \<le> classId
        \<lparr>x1 = max 0 (min imgWidth ((cx - w / 2 - padX) / scale)),
           y1 = max 0 (min imgHeight ((cy - h / 2 - padY) / scale)),
           x2 = max 0 (min imgWidth ((cx + w / 2 - padX) / scale)),
           y2 = max 0 (min imgHeight ((cy + h / 2 - padY) / scale)),
           score = fst (best_class known' (data out) numPreds (int numAttrs - 4) i),
           classId = snd (best_class known' (data out) numPreds (int numAttrs - 4) i)\<rparr> \<and>
      0 < score
        \<lparr>x1 = max 0 (min imgWidth ((cx - w / 2 - padX) / scale)),
           y1 = max 0 (min imgHeight ((cy - h / 2 - padY) / scale)),
           x2 = max 0 (min imgWidth ((cx + w / 2 - padX) / scale)),
           y2 = max 0 (min imgHeight ((cy + h / 2 - padY) / scale)),
           score = fst (best_class known' (data out) numPreds (int numAttrs - 4) i),
           classId = snd (best_class known' (data out) numPreds (int numAttrs - 4) i)\<rparr>"
      by simp
  qed
  show ?thesis
  proof (intro conjI impI)
    assume "0 < T \<and>
      decodeYOLO_with T tau known out imgWidth imgHeight scale padX padY = Inr dets"
    then show "\<forall>d\<in>set dets. 0 \<le> classId d \<and> 0 < score d"
      using positive by blast
  next
    assume "decodeYOLO out imgWidth imgHeight scale padX padY = Inr dets"
    then have "decodeYOLO_with CONF_THRESHOLD NMS_THRESHOLD (length CLASSES) out
        imgWidth imgHeight scale padX padY = Inr dets"
      by (simp add: decodeYOLO_def)
    moreover have "0 < CONF_THRESHOLD" by (simp add: CONF_THRESHOLD_def)
    ultimately show "\<forall>d\<in>set dets. 0 \<le> classId d \<and> 0 < score d"
      by (rule positive)
  next
    assume h: "0 < T \<and>
      (\<forall>c<scanned known numClasses. \<forall>s. class_score dat numPreds i c = Some s \<longrightarrow> s \<le> 0)"
    then have "best_class known dat numPreds numClasses i = (0, - 1)"
      by (simp add: best_class_sentinel)
    then have "fst (best_class known dat numPreds numClasses i) < T" using h by simp
    then show "decode_pred T known dat numPreds numClasses imgWidth imgHeight scale padX padY i ds
        = Inr ds"
      by (rule decode_pred_skip)
  next
    assume h: "T \<le> 0 \<and>
      (\<forall>c<scanned known numClasses. \<forall>s. class_score dat numPreds i c = Some s \<longrightarrow> s \<le> 0) \<and>
      i + 3 * numPreds < length dat \<and> scale \<noteq> 0"
    then have best: "best_class known dat numPreds numClasses i = (0, - 1)"
      by (simp add: best_class_sentinel)
    then have pass: "\<not> fst (best_class known dat numPreds numClasses i) < T" using h by simp
    have reads: "data_at dat i = Some (dat ! i)"
      "data_at dat (i + numPreds) = Some (dat ! (i + numPreds))"
      "data_at dat (i + 2 * numPreds) = Some (dat ! (i + 2 * numPreds))"
      "data_at dat (i + 3 * numPreds) = Some (dat ! (i + 3 * numPreds))"
      using h by (simp_all add: data_at_def)
    from h have nz: "scale \<noteq> 0" by simp
    show "\<exists>d. decode_pred T known dat numPreds numClasses imgWidth imgHeight scale padX padY i ds
               = Inr (ds @ [d]) \<and>
             classId d = - 1 \<and> score d = 0"
      using decode_pred_emit[OF pass reads nz, of imgWidth imgHeight padX padY ds] best
      by simp
  qed
qed

theorem sentinel_class_witness:
  "decodeYOLO_with (4 / 10) (1 / 2) 5
     \<lparr>data = [100, 200, 100, 200, 20, 40, 20, 40, 9 / 10, 1 / 10, 2 / 10, 3 / 10],
      dims = [1, 6, 2]\<rparr> 640 640 1 0 0
   = Inr [\<lparr>x1 = 90, y1 = 90, x2 = 110, y2 = 110, score = 9 / 10, classId = 0\<rparr>] \<and>
   decode_pred (4 / 10) 5 [100, 100, 20, 20, 0, - 1] 1 2 640 640 1 0 0 0 [] = Inr [] \<and>
   decode_pred 0 5 [100, 100, 20, 20, 0, - 1] 1 2 640 640 1 0 0 0 []
     = Inr [\<lparr>x1 = 90, y1 = 90, x2 = 110, y2 = 110, score = 0, classId = - 1\<rparr>] \<and>
   decodeYOLO
     \<lparr>data = [100, 200, 100, 200, 20, 40, 20, 40, 9 / 10, 1 / 10, 2 / 10, 3 / 10],
      dims = [1, 6, 2]\<rparr> 640 640 1 0 0
   = Inr [\<lparr>x1 = 90, y1 = 90, x2 = 110, y2 = 110, score = 9 / 10, classId = 0\<rparr>]"
  using sentinel_class
    [where T = "4 / 10" and tau = "1 / 2" and known = 5
       and out = "\<lparr>data = [100, 200, 100, 200, 20, 40, 20, 40, 9 / 10, 1 / 10, 2 / 10, 3 / 10],
                    dims = [1, 6, 2]\<rparr>"
       and imgWidth = 640 and imgHeight = 640 and scale = 1 and padX = 0 and padY = 0
       and dets = "[\<lparr>x1 = 90, y1 = 90, x2 = 110, y2 = 110, score = 9 / 10, classId = 0\<rparr>]"
       and dat = "[100, 100, 20, 20, 0, - 1]" and numPreds = 1 and numClasses = 2
       and i = 0 and ds = "[]"]
    sentinel_class
    [where T = 0 and known = 5
       and imgWidth = 640 and imgHeight = 640 and scale = 1 and padX = 0 and padY = 0
       and dat = "[100, 100, 20, 20, 0, - 1]" and numPreds = 1 and numClasses = 2
       and i = 0 and ds = "[]"]
    sample_run sample_run_shipped
  by (simp add: decode_pred_def best_class_def scan_class_def upt_rec
        data_at_def nth_Cons' Let_def)

text \<open>
  Claim C4. For a prediction that passes the threshold, with readable geometry
  \<open>(cx, cy, w, h)\<close>, a non-zero scale and non-negative image dimensions, the loop body
  appends exactly the detection of the specification's Coordinate Remapper: corners from
  centre and size, \<open>(x - padX) / scale\<close> and \<open>(y - padY) / scale\<close> for both corners,
  each clamped to \<open>[0, imgW]\<close> or \<open>[0, imgH]\<close>. It carries the tracked score and class
  index unchanged, and its coordinates lie in \<open>[0, imgW] \<times> [0, imgH]\<close>.
\<close>

theorem remap_refines:
  assumes "\<not> fst (best_class known dat numPreds numClasses i) < T"
    and "data_at dat i = Some cx" and "data_at dat (i + numPreds) = Some cy"
    and "data_at dat (i + 2 * numPreds) = Some w" and "data_at dat (i + 3 * numPreds) = Some h"
    and "scale \<noteq> 0" and "0 \<le> imgW" and "0 \<le> imgH"
  shows "\<exists>d. decode_pred T known dat numPreds numClasses imgW imgH scale padX padY i ds
             = Inr (ds @ [d]) \<and>
    d = remap_spec cx cy w h (fst (best_class known dat numPreds numClasses i))
          (snd (best_class known dat numPreds numClasses i)) scale padX padY imgW imgH \<and>
    x1 d = max 0 (min imgW ((cx - w / 2 - padX) / scale)) \<and>
    y1 d = max 0 (min imgH ((cy - h / 2 - padY) / scale)) \<and>
    x2 d = max 0 (min imgW ((cx + w / 2 - padX) / scale)) \<and>
    y2 d = max 0 (min imgH ((cy + h / 2 - padY) / scale)) \<and>
    score d = fst (best_class known dat numPreds numClasses i) \<and>
    classId d = snd (best_class known dat numPreds numClasses i) \<and>
    0 \<le> x1 d \<and> x1 d \<le> imgW \<and> 0 \<le> x2 d \<and> x2 d \<le> imgW \<and>
    0 \<le> y1 d \<and> y1 d \<le> imgH \<and> 0 \<le> y2 d \<and> y2 d \<le> imgH"
proof -
  let ?d = "\<lparr>x1 = max 0 (min imgW ((cx - w / 2 - padX) / scale)),
        y1 = max 0 (min imgH ((cy - h / 2 - padY) / scale)),
        x2 = max 0 (min imgW ((cx + w / 2 - padX) / scale)),
        y2 = max 0 (min imgH ((cy + h / 2 - padY) / scale)),
        score = fst (best_class known dat numPreds numClasses i),
        classId = snd (best_class known dat numPreds numClasses i)\<rparr>"
  have run: "decode_pred T known dat numPreds numClasses imgW imgH scale padX padY i ds
      = Inr (ds @ [?d])"
    using assms(1-6) by (rule decode_pred_emit)
  have spec: "?d = remap_spec cx cy w h (fst (best_class known dat numPreds numClasses i))
          (snd (best_class known dat numPreds numClasses i)) scale padX padY imgW imgH"
    using assms(7,8) by (simp add: remap_spec_def Let_def clamp_code_spec)
  have range: "0 \<le> x1 ?d \<and> x1 ?d \<le> imgW \<and> 0 \<le> x2 ?d \<and> x2 ?d \<le> imgW \<and>
    0 \<le> y1 ?d \<and> y1 ?d \<le> imgH \<and> 0 \<le> y2 ?d \<and> y2 ?d \<le> imgH"
    using clamp_range[OF assms(7)] clamp_range[OF assms(8)] by simp
  show ?thesis
  proof (intro exI[of _ ?d] conjI)
    show "decode_pred T known dat numPreds numClasses imgW imgH scale padX padY i ds
      = Inr (ds @ [?d])"
      by (rule run)
    show "?d = remap_spec cx cy w h (fst (best_class known dat numPreds numClasses i))
          (snd (best_class known dat numPreds numClasses i)) scale padX padY imgW imgH"
      by (rule spec)
  qed (use range in simp_all)
qed

theorem remap_refines_witness:
  "decode_pred (4 / 10) 5 [320, 10, 100, 40, 9 / 10] 1 1 1920 1080 (1 / 3) 0 140 0 []
     = Inr [\<lparr>x1 = 810, y1 = 0, x2 = 1110, y2 = 0, score = 9 / 10, classId = 0\<rparr>] \<and>
   remap_spec 320 10 100 40 (9 / 10) 0 (1 / 3) 0 140 1920 1080
     = \<lparr>x1 = 810, y1 = 0, x2 = 1110, y2 = 0, score = 9 / 10, classId = 0\<rparr>"
  using remap_refines
    [where T = "4 / 10" and known = 5 and dat = "[320, 10, 100, 40, 9 / 10]"
       and numPreds = 1 and numClasses = 1 and i = 0 and cx = 320 and cy = 10
       and w = 100 and h = 40 and scale = "1 / 3" and imgW = 1920 and imgH = 1080
       and padX = 0 and padY = 140 and ds = "[]"]
  by (simp add: decode_pred_def best_class_def scan_class_def upt_rec
        data_at_def nth_Cons' Let_def remap_spec_def clamp_spec_def)

text \<open>
  Claim C5, as the script has it. For non-negative image dimensions every detection
  returned by \<open>decodeYOLO_with\<close> has both corners in \<open>[0, imgW] \<times> [0, imgH]\<close>. The
  corners are in order, \<open>x1 \<le> x2\<close> and \<open>y1 \<le> y2\<close>, when the scale is positive and
  the decoded widths and heights of the tensor are non-negative.
\<close>

theorem detections_clamped_ordered:
  "(0 \<le> imgW \<and> 0 \<le> imgH \<and>
    decodeYOLO_with T tau known out imgW imgH scale padX padY = Inr dets \<longrightarrow>
      (\<forall>d\<in>set dets. 0 \<le> x1 d \<and> x1 d \<le> imgW \<and> 0 \<le> x2 d \<and> x2 d \<le> imgW \<and>
                     0 \<le> y1 d \<and> y1 d \<le> imgH \<and> 0 \<le> y2 d \<and> y2 d \<le> imgH)) \<and>
   (0 < scale \<and> sizes_nonneg out \<and>
    decodeYOLO_with T tau known out imgW imgH scale padX padY = Inr dets \<longrightarrow>
      (\<forall>d\<in>set dets. x1 d \<le> x2 d \<and> y1 d \<le> y2 d))"
proof (intro conjI impI)
  assume h: "0 \<le> imgW \<and> 0 \<le> imgH \<and>
    decodeYOLO_with T tau known out imgW imgH scale padX padY = Inr dets"
  then have run: "decodeYOLO_with T tau known out imgW imgH scale padX padY = Inr dets"
    and W: "0 \<le> imgW" and H: "0 \<le> imgH" by simp_all
  show "\<forall>d\<in>set dets. 0 \<le> x1 d \<and> x1 d \<le> imgW \<and> 0 \<le> x2 d \<and> x2 d \<le> imgW \<and>
                     0 \<le> y1 d \<and> y1 d \<le> imgH \<and> 0 \<le> y2 d \<and> y2 d \<le> imgH"
    by (rule decodeYOLO_with_all[OF run, where R = "\<lambda>d. 0 \<le> x1 d \<and> x1 d \<le> imgW \<and>
          0 \<le> x2 d \<and> x2 d \<le> imgW \<and> 0 \<le> y1 d \<and> y1 d \<le> imgH \<and> 0 \<le> y2 d \<and> y2 d \<le> imgH"])
       (use clamp_range[OF W] clamp_range[OF H] in simp)
next
  assume h: "0 < scale \<and> sizes_nonneg out \<and>
    decodeYOLO_with T tau known out imgW imgH scale padX padY = Inr dets"
  then have run: "decodeYOLO_with T tau known out imgW imgH scale padX padY = Inr dets"
    and sc: "0 < scale" and nn: "sizes_nonneg out" by simp_all
  show "\<forall>d\<in>set dets. x1 d \<le> x2 d \<and> y1 d \<le> y2 d"
  proof (rule decodeYOLO_with_all[OF run, where R = "\<lambda>d. x1 d \<le> x2 d \<and> y1 d \<le> y2 d"])
    fix batch numAttrs numPreds i cx cy w h
    assume d: "dims out = [batch, numAttrs, numPreds]" and i: "i < numPreds"
      and w: "data_at (data out) (i + 2 * numPreds) = Some w"
      and h: "data_at (data out) (i + 3 * numPreds) = Some h"
    have mem: "i \<in> set [0 ..< numPreds]" using i by simp
    have "\<forall>j\<in>set [0 ..< numPreds].
        (case data_at (data out) (j + 2 * numPreds) of None \<Rightarrow> True | Some w \<Rightarrow> 0 \<le> w) \<and>
        (case data_at (data out) (j + 3 * numPreds) of None \<Rightarrow> True | Some h \<Rightarrow> 0 \<le> h)"
      using nn d by (simp add: sizes_nonneg_def)
    then have "(case data_at (data out) (i + 2 * numPreds) of None \<Rightarrow> True | Some w \<Rightarrow> 0 \<le> w) \<and>
        (case data_at (data out) (i + 3 * numPreds) of None \<Rightarrow> True | Some h \<Rightarrow> 0 \<le> h)"
      using mem by (rule bspec)
    then have "0 \<le> w \<and> 0 \<le> h"
      using w h by simp
    then have "(cx - w / 2 - padX) / scale \<le> (cx + w / 2 - padX) / scale"
      and "(cy - h / 2 - padY) / scale \<le> (cy + h / 2 - padY) / scale"
      using sc by (simp_all add: divide_right_mono)
    then have "max 0 (min imgW ((cx - w / 2 - padX) / scale))
          \<le> max 0 (min imgW ((cx + w / 2 - padX) / scale))"
      and "max 0 (min imgH ((cy - h / 2 - padY) / scale))
          \<le> max 0 (min imgH ((cy + h / 2 - padY) / scale))"
      by (simp_all only: clamp_mono)
    then show "x1 \<lparr>x1 = max 0 (min imgW ((cx - w / 2 - padX) / scale)),
           y1 = max 0 (min imgH ((cy - h / 2 - padY) / scale)),
           x2 = max 0 (min imgW ((cx + w / 2 - padX) / scale)),
           y2 = max 0 (min imgH ((cy + h / 2 - padY) / scale)),
           score = fst (best_class known (data out) numPreds (int numAttrs - 4) i),
           classId = snd (best_class known (data out) numPreds (int numAttrs - 4) i)\<rparr>
        \<le> x2 \<lparr>x1 = max 0 (min imgW ((cx - w / 2 - padX) / scale)),
           y1 = max 0 (min imgH ((cy - h / 2 - padY) / scale)),
           x2 = max 0 (min imgW ((cx + w / 2 - padX) / scale)),
           y2 = max 0 (min imgH ((cy + h / 2 - padY) / scale)),
           score = fst (best_class known (data out) numPreds (int numAttrs - 4) i),
           classId = snd (best_class known (data out) numPreds (int numAttrs - 4) i)\<rparr> \<and>
      y1 \<lparr>x1 = max 0 (min imgW ((cx - w / 2 - padX) / scale)),
           y1 = max 0 (min imgH ((cy - h / 2 - padY) / scale)),
           x2 = max 0 (min imgW ((cx + w / 2 - padX) / scale)),
           y2 = max 0 (min imgH ((cy + h / 2 - padY) / scale)),
           score = fst (best_class known (data out) numPreds (int numAttrs - 4) i),
           classId = snd (best_class known (data out) numPreds (int numAttrs - 4) i)\<rparr>
        \<le> y2 \<lparr>x1 = max 0 (min imgW ((cx - w / 2 - padX) / scale)),
           y1 = max 0 (min imgH ((cy - h / 2 - padY) / scale)),
           x2 = max 0 (min imgW ((cx + w / 2 - padX) / scale)),
           y2 = max 0 (min imgH ((cy + h / 2 - padY) / scale)),
           score = fst (best_class known (data out) numPreds (int numAttrs - 4) i),
           classId = snd (best_class known (data out) numPreds (int numAttrs - 4) i)\<rparr>"
      by simp
  qed
qed

theorem detections_clamped_ordered_witness:
  "sizes_nonneg \<lparr>data = [100, 200, 100, 200, 20, 40, 20, 40, 9 / 10, 1 / 10, 2 / 10, 3 / 10],
      dims = [1, 6, 2]\<rparr> \<and>
   decodeYOLO_with (4 / 10) (1 / 2) 5
     \<lparr>data = [100, 200, 100, 200, 20, 40, 20, 40, 9 / 10, 1 / 10, 2 / 10, 3 / 10],
      dims = [1, 6, 2]\<rparr> 640 640 1 0 0
   = Inr [\<lparr>x1 = 90, y1 = 90, x2 = 110, y2 = 110, score = 9 / 10, classId = 0\<rparr>] \<and>
   x1 \<lparr>x1 = 90, y1 = 90, x2 = 110, y2 = 110, score = 9 / 10, classId = 0\<rparr>
     \<le> x2 \<lparr>x1 = 90, y1 = 90, x2 = 110, y2 = 110, score = 9 / 10, classId = 0\<rparr> \<and>
   x2 \<lparr>x1 = 90, y1 = 90, x2 = 110, y2 = 110, score = 9 / 10, classId = 0\<rparr> \<le> (640 :: real)"
  using detections_clamped_ordered
    [where T = "4 / 10" and tau = "1 / 2" and known = 5
       and out = "\<lparr>data = [100, 200, 100, 200, 20, 40, 20, 40, 9 / 10, 1 / 10, 2 / 10, 3 / 10],
                    dims = [1, 6, 2]\<rparr>"
       and imgW = 640 and imgH = 640 and scale = 1 and padX = 0 and padY = 0
       and dets = "[\<lparr>x1 = 90, y1 = 90, x2 = 110, y2 = 110, score = 9 / 10, classId = 0\<rparr>]"]
    sample_run sample_sizes
  by simp

text \<open>
  A prediction with a negative width: the corner \<open>x1\<close> of the returned detection lies to
  the right of \<open>x2\<close>.
\<close>

theorem negative_width_counterexample:
  "decodeYOLO \<lparr>data = [10, 10, - 4, 4, 9 / 10], dims = [1, 5, 1]\<rparr> 100 100 1 0 0
     = Inr [\<lparr>x1 = 12, y1 = 8, x2 = 8, y2 = 12, score = 9 / 10, classId = 0\<rparr>] \<and>
   \<not> x1 \<lparr>x1 = 12, y1 = 8, x2 = 8, y2 = 12, score = 9 / 10, classId = 0\<rparr>
       \<le> x2 \<lparr>x1 = 12, y1 = 8, x2 = 8, y2 = 12, score = 9 / 10, classId = 0\<rparr>"
  by (simp add: decodeYOLO_def CONF_THRESHOLD_def NMS_THRESHOLD_def CLASSES_def
        decodeYOLO_with_def decode_pred_def best_class_def scan_class_def upt_rec
        data_at_def nth_Cons' nms_def js_sort_def Let_def)

text \<open>
  Claim C1, as the script has it. \<open>decodeYOLO\<close> raises no error for a malformed shape:
  for a tensor whose rank is not 3 it returns the empty list (after logging), and for a
  rank-3 tensor with at most 4 attribute channels it returns the empty list as well, since
  no class channel is scanned and the tracked score 0 is below the threshold 0.4.
\<close>

theorem bad_shape_returns_empty:
  "(length (dims out) \<noteq> 3 \<longrightarrow>
      decodeYOLO out imgWidth imgHeight scale padX padY = Inr []) \<and>
   (dims out = [batch, numAttrs, numPreds] \<and> numAttrs \<le> 4 \<longrightarrow>
      decodeYOLO out imgWidth imgHeight scale padX padY = Inr [])"
proof (intro conjI impI)
  assume "length (dims out) \<noteq> 3"
  then show "decodeYOLO out imgWidth imgHeight scale padX padY = Inr []"
    unfolding decodeYOLO_def by (rule decodeYOLO_with_bad_rank)
next
  assume "dims out = [batch, numAttrs, numPreds] \<and> numAttrs \<le> 4"
  then have d: "dims out = [batch, numAttrs, numPreds]" and a: "numAttrs \<le> 4" by simp_all
  have "0 < CONF_THRESHOLD" by (simp add: CONF_THRESHOLD_def)
  with d a show "decodeYOLO out imgWidth imgHeight scale padX padY = Inr []"
    unfolding decodeYOLO_def by (rule decodeYOLO_with_no_classes)
qed

theorem bad_shape_returns_empty_witness:
  "decodeYOLO \<lparr>data = [1, 2, 3, 4, 5, 6], dims = [2, 3]\<rparr> 640 480 1 0 80 = Inr [] \<and>
   decodeYOLO \<lparr>data = [10, 10, 4, 4, 9 / 10, 8 / 10], dims = [1, 3, 2]\<rparr> 640 480 1 0 80 = Inr []"
  using bad_shape_returns_empty
          [where out = "\<lparr>data = [1, 2, 3, 4, 5, 6], dims = [2, 3]\<rparr>"
             and imgWidth = 640 and imgHeight = 480 and scale = 1 and padX = 0 and padY = 80]
        bad_shape_returns_empty
          [where out = "\<lparr>data = [10, 10, 4, 4, 9 / 10, 8 / 10], dims = [1, 3, 2]\<rparr>"
             and batch = 1 and numAttrs = 3 and numPreds = 2
             and imgWidth = 640 and imgHeight = 480 and scale = 1 and padX = 0 and padY = 80]
  by simp

text \<open>A tensor of shape \<open>[1, 4, 100]\<close> is answered with the empty list, not an error.\<close>

theorem shape_1_4_100_counterexample:
  "decodeYOLO \<lparr>data = replicate 400 (1 / 2), dims = [1, 4, 100]\<rparr> 1920 1080 (1 / 3) 0 140
     = Inr []"
  using decodeYOLO_with_no_classes
          [where out = "\<lparr>data = replicate 400 (1 / 2), dims = [1, 4, 100]\<rparr>"
             and batch = 1 and numAttrs = 4 and numPreds = 100 and T = CONF_THRESHOLD
             and tau = NMS_THRESHOLD and known = "length CLASSES"
             and imgWidth = 1920 and imgHeight = 1080 and scale = "1 / 3"
             and padX = 0 and padY = 140]
  by (simp add: decodeYOLO_def CONF_THRESHOLD_def)

text \<open>
  Claim C6, as the script has it. The scan reads the scores of the class channels \<open>c\<close>
  in \<open>[0, min(C, known-classes))\<close> at attribute index \<open>4 + c\<close> and nothing else: two
  tensors that agree on them give the same result. When some scanned score is positive,
  the result is the maximum scanned score with the lowest class index that attains it.
  When no scanned score is positive, the result is the initial pair: score 0 and class
  index \<open>-1\<close>.
\<close>

theorem best_class_first_max:
  "((\<forall>c<scanned known numClasses.
        class_score dat numPreds i c = class_score dat' numPreds i c) \<longrightarrow>
      best_class known dat numPreds numClasses i = best_class known dat' numPreds numClasses i) \<and>
   (best_class known dat numPreds numClasses i = (bs, bc) \<and>
    (\<exists>c<scanned known numClasses. \<exists>s. class_score dat numPreds i c = Some s \<and> 0 < s) \<longrightarrow>
      0 \<le> bc \<and> nat bc < scanned known numClasses \<and>
      class_score dat numPreds i (nat bc) = Some bs \<and>
      (\<forall>c<scanned known numClasses. \<forall>s. class_score dat numPreds i c = Some s \<longrightarrow> s \<le> bs) \<and>
      (\<forall>c<nat bc. \<forall>s. class_score dat numPreds i c = Some s \<longrightarrow> s < bs)) \<and>
   ((\<forall>c<scanned known numClasses. \<forall>s. class_score dat numPreds i c = Some s \<longrightarrow> s \<le> 0) \<longrightarrow>
      best_class known dat numPreds numClasses i = (0, - 1))"
proof (intro conjI impI)
  assume "\<forall>c<scanned known numClasses.
        class_score dat numPreds i c = class_score dat' numPreds i c"
  then show "best_class known dat numPreds numClasses i
      = best_class known dat' numPreds numClasses i"
    by (rule best_class_cong)
next
  assume h: "best_class known dat numPreds numClasses i = (bs, bc) \<and>
    (\<exists>c<scanned known numClasses. \<exists>s. class_score dat numPreds i c = Some s \<and> 0 < s)"
  then have b: "best_class known dat numPreds numClasses i = (bs, bc)" by simp
  from h obtain c s where c: "c < scanned known numClasses"
    "class_score dat numPreds i c = Some s" "0 < s" by blast
  have "s \<le> bs" using best_class_upper[OF c(1,2)] b by simp
  then have pos: "0 < bs" using c(3) by simp
  from best_class_inv[OF b] pos
  have all: "0 \<le> bc \<and> nat bc < scanned known numClasses \<and> 0 < bs \<and>
    class_score dat numPreds i (nat bc) = Some bs \<and>
    (\<forall>c<scanned known numClasses. \<forall>s. class_score dat numPreds i c = Some s \<longrightarrow> s \<le> bs) \<and>
    (\<forall>c<nat bc. \<forall>s. class_score dat numPreds i c = Some s \<longrightarrow> s < bs)"
    by (elim disjE) simp_all
  from all show "0 \<le> bc" by simp
  from all show "nat bc < scanned known numClasses" by simp
  from all show "class_score dat numPreds i (nat bc) = Some bs" by simp
  from all show "\<forall>c<scanned known numClasses. \<forall>s. class_score dat numPreds i c = Some s \<longrightarrow> s \<le> bs"
    by simp
  from all show "\<forall>c<nat bc. \<forall>s. class_score dat numPreds i c = Some s \<longrightarrow> s < bs"
    by simp
next
  assume "\<forall>c<scanned known numClasses. \<forall>s. class_score dat numPreds i c = Some s \<longrightarrow> s \<le> 0"
  then show "best_class known dat numPreds numClasses i = (0, - 1)"
    by (rule best_class_sentinel)
qed

theorem best_class_first_max_witness:
  "best_class 5 [10, 10, 4, 4, 3 / 10, 7 / 10, 7 / 10] 1 3 0 = (7 / 10, 1) \<and>
   class_score [10, 10, 4, 4, 3 / 10, 7 / 10, 7 / 10] 1 0 1 = Some (7 / 10) \<and>
   class_score [10, 10, 4, 4, 3 / 10, 7 / 10, 7 / 10] 1 0 2 = Some (7 / 10) \<and>
   best_class 5 [10, 10, 4, 4, - 1, 0] 1 2 0 = (0, - 1)"
  using best_class_first_max
          [where known = 5 and dat = "[10, 10, 4, 4, 3 / 10, 7 / 10, 7 / 10]"
             and dat' = "[10, 10, 4, 4, 3 / 10, 7 / 10, 7 / 10]"
             and numPreds = 1 and numClasses = 3 and i = 0 and bs = "7 / 10" and bc = 1]
        best_class_first_max
          [where known = 5 and dat = "[10, 10, 4, 4, - 1, 0]" and dat' = "[10, 10, 4, 4, - 1, 0]"
             and numPreds = 1 and numClasses = 2 and i = 0 and bs = 0 and bc = "- 1"]
        tie_scores
  by (simp add: best_class_def scan_class_def data_at_def upt_rec nth_Cons')

text \<open>
  Two class channels that are both 0, and two that are both negative: the maximum score is
  at class 0, the scan yields the initial pair.
\<close>

theorem all_zero_scores_counterexample:
  "class_score [10, 10, 4, 4, 0, 0] 1 0 0 = Some 0 \<and>
   class_score [10, 10, 4, 4, 0, 0] 1 0 1 = Some 0 \<and>
   best_class 5 [10, 10, 4, 4, 0, 0] 1 2 0 = (0, - 1) \<and>
   class_score [10, 10, 4, 4, - 1, - 2] 1 0 0 = Some (- 1) \<and>
   class_score [10, 10, 4, 4, - 1, - 2] 1 0 1 = Some (- 2) \<and>
   best_class 5 [10, 10, 4, 4, - 1, - 2] 1 2 0 = (0, - 1)"
  by (simp add: best_class_def scan_class_def class_score_def data_at_def upt_rec nth_Cons')

end
